theory Spec2Isabelle
  imports Main "HOL-Library.Word" "HOL-Library.Signed_Division" "HOL-Library.Multiset"
begin

section \<open>Data model of \<^verbatim>\<open>main.go\<close>\<close>

text \<open>
  The program is built for linux/amd64 only, so Go's \<^verbatim>\<open>int\<close> and \<^verbatim>\<open>int64\<close> are both
  64-bit two's-complement integers: \<open>+\<close> wraps, and comparisons read the signed value
  (\<open>sint\<close>).
\<close>

type_synonym go_int = "64 word"

record JobObject =
  Type :: string
  Size :: go_int

record JobResult =
  Operation :: string
  Success :: bool
  Source :: string
  Destination :: string
  Object :: JobObject

record Summary =
  FilesTransferred :: go_int
  FilesDeleted :: go_int
  TotalBytes :: go_int
  FilesFailed :: "string list"

text \<open>The zero value \<^verbatim>\<open>Summary{}\<close>.\<close>

definition Summary_zero :: Summary where
  "Summary_zero = \<lparr>FilesTransferred = 0, FilesDeleted = 0, TotalBytes = 0, FilesFailed = []\<rparr>"

text \<open>\<^verbatim>\<open>len(s)\<close> of a slice, as a Go \<^verbatim>\<open>int\<close>.\<close>

definition len :: "'a list \<Rightarrow> go_int" where
  "len xs = of_nat (length xs)"

datatype error =
    ErrGeneratingJobID
  | ErrCreatingOutputFile
  | ErrExit
  | ErrRunningS5cmd string error
  | ErrParsingAndCleanup string error
  | ErrOpeningJobResultFile
  | ErrReadingJobResultFile
  | ErrCouldNotOpenOutputFile
  | ErrCouldNotReadOutputFile
  | ErrConnectNetdata string

section \<open>The operating system and the libraries, as an interface\<close>

text \<open>
  Reading a file yields its bytes and then either end-of-file or an I/O error.
  \<^verbatim>\<open>os.Open\<close> fails with a not-exist error, fails otherwise, or gives such a stream.
\<close>

datatype io_end = EOF | IOFault

datatype open_result = NotExist | OpenFails | Opened string io_end

text \<open>A command as \<^verbatim>\<open>exec.Command\<close> and \<^verbatim>\<open>cmd.Env\<close> describe it.\<close>

record Cmd =
  Path :: string
  Args :: "string list"
  Env :: "string list"

text \<open>
  Everything outside the program is reached through this record of operations on a
  world \<open>'w\<close>; every theorem that does not fix a world holds for all of them.
  A \<open>bool\<close> result is \<^verbatim>\<open>err == nil\<close>.
  \<^item> \<open>NewRandom\<close>: \<^verbatim>\<open>uuid.NewRandom\<close>, the job id or a failure;
  \<^item> \<open>Create\<close>: \<^verbatim>\<open>os.Create\<close> of the output file;
  \<^item> \<open>Run\<close>: \<^verbatim>\<open>cmd.Run\<close> with standard output and error sent to the named file;
  \<^item> \<open>Open\<close>: \<^verbatim>\<open>os.Open\<close> and what reading the file then yields;
  \<^item> \<open>Remove\<close>: \<^verbatim>\<open>os.Remove\<close>;
  \<^item> \<open>Getenv\<close>, \<open>Environ\<close>: the process environment;
  \<^item> \<open>Dial\<close>: \<^verbatim>\<open>net.Dial("udp", address)\<close>;
  \<^item> \<open>Unmarshal_JobResult\<close>: \<^verbatim>\<open>json.Unmarshal\<close> into a fresh \<^verbatim>\<open>JobResult\<close>;
  \<^item> \<open>Unmarshal_s5Error\<close>: \<^verbatim>\<open>json.Unmarshal\<close> into \<^verbatim>\<open>struct{Error string}\<close>, giving the
    field \<^verbatim>\<open>Error\<close>; \<open>None\<close> is a decoding error in both.
\<close>

record 'w os =
  NewRandom :: "'w \<Rightarrow> string option \<times> 'w"
  Create :: "string \<Rightarrow> 'w \<Rightarrow> bool \<times> 'w"
  Run :: "Cmd \<Rightarrow> string \<Rightarrow> 'w \<Rightarrow> bool \<times> 'w"
  Open :: "string \<Rightarrow> 'w \<Rightarrow> open_result"
  Remove :: "string \<Rightarrow> 'w \<Rightarrow> bool \<times> 'w"
  Getenv :: "string \<Rightarrow> 'w \<Rightarrow> string"
  Environ :: "'w \<Rightarrow> string list"
  Dial :: "string \<Rightarrow> 'w \<Rightarrow> bool"
  Unmarshal_JobResult :: "string \<Rightarrow> JobResult option"
  Unmarshal_s5Error :: "string \<Rightarrow> string option"

section \<open>\<^verbatim>\<open>parseAndCleanup\<close>\<close>

text \<open>
  \<^verbatim>\<open>reader.ReadBytes(delim)\<close> on the bytes still unread: the line up to and including the
  first delimiter together with the rest, or \<open>None\<close> when the input ends before a
  delimiter (the bytes read so far come back with the error and the caller drops them).
\<close>

fun ReadBytes :: "char \<Rightarrow> string \<Rightarrow> (string \<times> string) option" where
  "ReadBytes delim [] = None"
| "ReadBytes delim (c # cs) =
     (if c = delim then Some ([c], cs)
      else (case ReadBytes delim cs of
              None \<Rightarrow> None
            | Some (line, rest) \<Rightarrow> Some (c # line, rest)))"

definition newline :: char where
  "newline = CHR 0x0A"

text \<open>Lines 426 to 436: what one decoded record does to the summary and the world.\<close>

definition reconcile :: "'w os \<Rightarrow> JobResult \<Rightarrow> Summary \<times> 'w \<Rightarrow> Summary \<times> 'w" where
  "reconcile sys result st =
     (let (summary, w) = st in
      if Operation result = ''cp'' \<and> Success result \<and> Type (Object result) = ''file'' then
        (let summary1 = summary\<lparr>FilesTransferred := FilesTransferred summary + 1\<rparr>;
             summary2 = summary1\<lparr>TotalBytes := TotalBytes summary1 + Size (Object result)\<rparr>;
             filePathToDelete = Source result;
             (removed, w') = Remove sys filePathToDelete w
         in if \<not> removed
            then (summary2\<lparr>FilesFailed := FilesFailed summary2 @ [filePathToDelete]\<rparr>, w')
            else (summary2\<lparr>FilesDeleted := FilesDeleted summary2 + 1\<rparr>, w'))
      else (summary, w))"

text \<open>The \<^verbatim>\<open>for\<close> loop of lines 411 to 437 over the unread bytes.\<close>

function parse_loop ::
  "'w os \<Rightarrow> io_end \<Rightarrow> string \<Rightarrow> Summary \<times> 'w \<Rightarrow> (Summary \<times> error option) \<times> 'w" where
  "parse_loop sys ending unread st =
     (case ReadBytes newline unread of
        None \<Rightarrow>
          (case ending of
             EOF \<Rightarrow> ((fst st, None), snd st)
           | IOFault \<Rightarrow> ((fst st, Some ErrReadingJobResultFile), snd st))
      | Some (line, rest) \<Rightarrow>
          (case Unmarshal_JobResult sys line of
             None \<Rightarrow> parse_loop sys ending rest st
           | Some result \<Rightarrow> parse_loop sys ending rest (reconcile sys result st)))"
  by pat_completeness auto
termination
proof -
  have shorter: "length rest < length s" if "ReadBytes delim s = Some (line, rest)"
    for delim s line rest
    using that by (induction s arbitrary: line rest) (auto split: if_splits option.splits)
  show ?thesis
    by (relation "measure (\<lambda>(sys, ending, unread, st). length unread)")
      (auto simp: shorter)
qed

definition parseAndCleanup ::
  "'w os \<Rightarrow> string \<Rightarrow> string \<Rightarrow> 'w \<Rightarrow> (Summary \<times> error option) \<times> 'w" where
  "parseAndCleanup sys folderPrefix jsonOutputFile w =
     (case Open sys jsonOutputFile w of
        NotExist \<Rightarrow> ((Summary_zero, Some ErrOpeningJobResultFile), w)
      | OpenFails \<Rightarrow> ((Summary_zero, Some ErrOpeningJobResultFile), w)
      | Opened content ending \<Rightarrow> parse_loop sys ending content (Summary_zero, w))"

section \<open>\<^verbatim>\<open>checkForNoMatchError\<close>\<close>

text \<open>\<^verbatim>\<open>strings.Contains(s, substr)\<close>: \<open>substr\<close> starts at some position of \<open>s\<close>.\<close>

fun strings_Contains :: "string \<Rightarrow> string \<Rightarrow> bool" where
  "strings_Contains [] substr = (substr = [])"
| "strings_Contains (c # cs) substr =
     (if take (length substr) (c # cs) = substr then True else strings_Contains cs substr)"

text \<open>\<^verbatim>\<open>io.ReadAll\<close> returns an error exactly when reading ends with an I/O error.\<close>

definition checkForNoMatchError :: "'w os \<Rightarrow> string \<Rightarrow> 'w \<Rightarrow> bool \<times> error option" where
  "checkForNoMatchError sys jsonOutputFile w =
     (case Open sys jsonOutputFile w of
        NotExist \<Rightarrow> (False, None)
      | OpenFails \<Rightarrow> (False, Some ErrCouldNotOpenOutputFile)
      | Opened data ending \<Rightarrow>
          (case ending of
             IOFault \<Rightarrow> (False, Some ErrCouldNotReadOutputFile)
           | EOF \<Rightarrow>
               if length data = 0 then (False, None)
               else (case Unmarshal_s5Error sys data of
                       None \<Rightarrow> (False, None)
                     | Some s5Error \<Rightarrow>
                         (strings_Contains s5Error ''no match found for'', None))))"

section \<open>\<^verbatim>\<open>path/filepath\<close> on Unix\<close>

text \<open>
  \<^verbatim>\<open>filepath.Join\<close> and \<^verbatim>\<open>filepath.Clean\<close> belong to Go's standard library, not to the
  repository; they are written here after the library's Unix implementation (no volume
  names, separator \<^verbatim>\<open>/\<close>). \<open>out\<close> is the output buffer (its length is the library's
  write index \<^verbatim>\<open>out.w\<close>), \<open>dotdot\<close> the index where backtracking over \<^verbatim>\<open>..\<close> must stop.
\<close>

definition Separator :: char where
  "Separator = CHR ''/''"

definition dot :: char where
  "dot = CHR ''.''"

text \<open>
  \<^verbatim>\<open>for out.w > dotdot && !os.IsPathSeparator(out.index(out.w)) { out.w-- }\<close>,
  started at write index \<open>w\<close>.
\<close>

fun backtrack :: "string \<Rightarrow> nat \<Rightarrow> nat \<Rightarrow> nat" where
  "backtrack out dotdot 0 = 0"
| "backtrack out dotdot (Suc w) =
     (if Suc w > dotdot \<and> out ! Suc w \<noteq> Separator then backtrack out dotdot w else Suc w)"

function Clean_loop :: "bool \<Rightarrow> string \<Rightarrow> string \<Rightarrow> nat \<Rightarrow> string" where
  "Clean_loop rooted [] out dotdot = out"
| "Clean_loop rooted (c # cs) out dotdot =
     (if c = Separator then Clean_loop rooted cs out dotdot
      else if c = dot \<and> (case cs of [] \<Rightarrow> True | d # _ \<Rightarrow> d = Separator)
        then Clean_loop rooted cs out dotdot
      else if c = dot \<and>
              (case cs of
                 [] \<Rightarrow> False
               | d # ds \<Rightarrow> d = dot \<and> (case ds of [] \<Rightarrow> True | e # _ \<Rightarrow> e = Separator))
        then
          (if length out > dotdot
             then Clean_loop rooted (tl cs)
                    (take (backtrack out dotdot (length out - 1)) out) dotdot
           else if \<not> rooted
             then (let out' = (if length out > 0 then out @ [Separator] else out) @ [dot, dot]
                   in Clean_loop rooted (tl cs) out' (length out'))
           else Clean_loop rooted (tl cs) out dotdot)
      else
        (let out' = (if rooted \<and> length out \<noteq> 1 \<or> \<not> rooted \<and> length out \<noteq> 0
                     then out @ [Separator] else out)
         in Clean_loop rooted (dropWhile (\<lambda>x. x \<noteq> Separator) cs)
              (out' @ c # takeWhile (\<lambda>x. x \<noteq> Separator) cs) dotdot))"
  by pat_completeness auto
termination
  by (relation "measure (\<lambda>(rooted, path, out, dotdot). length path)")
    (auto simp: less_Suc_eq_le length_dropWhile_le)

definition Clean :: "string \<Rightarrow> string" where
  "Clean path =
     (case path of
        [] \<Rightarrow> [dot]
      | c # cs \<Rightarrow>
          (let rooted = (c = Separator);
               out = (if rooted then Clean_loop rooted cs [Separator] 1
                      else Clean_loop rooted path [] 0)
           in if length out = 0 then [dot] else out))"

text \<open>\<^verbatim>\<open>strings.Join(elems, sep)\<close>.\<close>

fun strings_Join :: "string list \<Rightarrow> string \<Rightarrow> string" where
  "strings_Join [] sep = []"
| "strings_Join [e] sep = e"
| "strings_Join (e # e' # elems) sep = e @ sep @ strings_Join (e' # elems) sep"

text \<open>
  \<^verbatim>\<open>filepath.Join\<close>: leading empty elements are skipped, the rest is joined with the
  separator and cleaned; all elements empty gives the empty string.
\<close>

fun Join :: "string list \<Rightarrow> string" where
  "Join [] = []"
| "Join (e # elem) =
     (if e \<noteq> [] then Clean (strings_Join (e # elem) [Separator]) else Join elem)"

text \<open>
  For the proofs about \<open>Clean\<close>: a string has a doubled separator when two neighbouring
  positions both hold one, and the loop keeps its buffer free of them, never leaves a
  separator at the buffer's end except for the root, and never lets \<open>dotdot\<close> point
  behind a separator.
\<close>

definition doubled :: "string \<Rightarrow> bool" where
  "doubled s \<longleftrightarrow> (\<exists>i. Suc i < length s \<and> s ! i = Separator \<and> s ! Suc i = Separator)"

definition Clean_inv :: "bool \<Rightarrow> string \<Rightarrow> nat \<Rightarrow> bool" where
  "Clean_inv rooted out dotdot \<longleftrightarrow>
     \<not> doubled out \<and>
     (out \<noteq> [] \<and> last out = Separator \<longrightarrow> rooted \<and> out = [Separator]) \<and>
     (rooted \<longrightarrow> out \<noteq> [] \<and> hd out = Separator \<and> dotdot = 1) \<and>
     (\<not> rooted \<longrightarrow> dotdot \<le> length out \<and> (0 < dotdot \<longrightarrow> out ! (dotdot - 1) \<noteq> Separator))"

section \<open>Lexical cleaning, stated on path elements\<close>

text \<open>
  The segments of a path are the strings between its separators, its elements the
  segments that are not empty.
\<close>

fun segments :: "string \<Rightarrow> string list" where
  "segments [] = [[]]"
| "segments (c # cs) =
     (if c = Separator then [] # segments cs
      else (case segments cs of [] \<Rightarrow> [[c]] | seg # rest \<Rightarrow> (c # seg) # rest))"

definition elements :: "string \<Rightarrow> string list" where
  "elements path = filter (\<lambda>e. e \<noteq> []) (segments path)"

text \<open>
  What joining and cleaning mean, said without the buffer: the elements are read from left
  to right and kept, except that a \<^verbatim>\<open>.\<close> element is dropped and a \<^verbatim>\<open>..\<close> element removes
  the element kept last; where there is none to remove (or only \<^verbatim>\<open>..\<close> elements are
  kept) it is dropped in a rooted path and kept in any other. The elements kept are
  written with one separator between them, after the root's separator in a rooted path;
  an unrooted path without elements is \<^verbatim>\<open>.\<close>.
\<close>

fun lexical :: "bool \<Rightarrow> string list \<Rightarrow> string list \<Rightarrow> string list" where
  "lexical rooted kept [] = kept"
| "lexical rooted kept (e # es) =
     (if e = [dot] then lexical rooted kept es
      else if e = [dot, dot]
        then (if kept \<noteq> [] \<and> last kept \<noteq> [dot, dot] then lexical rooted (butlast kept) es
              else if rooted then lexical rooted kept es
              else lexical rooted (kept @ [e]) es)
      else lexical rooted (kept @ [e]) es)"

definition buffer :: "bool \<Rightarrow> string list \<Rightarrow> string" where
  "buffer rooted kept = (if rooted then [Separator] else []) @ strings_Join kept [Separator]"

definition render :: "bool \<Rightarrow> string list \<Rightarrow> string" where
  "render rooted kept = (if \<not> rooted \<and> kept = [] then [dot] else buffer rooted kept)"

definition lexical_clean :: "string \<Rightarrow> string" where
  "lexical_clean path =
     (let rooted = (path \<noteq> [] \<and> hd path = Separator)
      in render rooted (lexical rooted [] (elements path)))"

text \<open>
  Joining a root and a suffix: both empty give the empty string, an empty root leaves the
  suffix alone, and otherwise the two are put together with a separator; the result is
  cleaned.
\<close>

definition lexical_join :: "string \<Rightarrow> string \<Rightarrow> string" where
  "lexical_join root suffix =
     (if root \<noteq> [] then lexical_clean (root @ [Separator] @ suffix)
      else if suffix \<noteq> [] then lexical_clean suffix
      else [])"

section \<open>\<^verbatim>\<open>runS5cmd\<close> and \<^verbatim>\<open>processFiles\<close>\<close>

definition LogLevel :: string where
  "LogLevel = ''info''"

text \<open>Lines 276 to 279: the source glob handed to the copy tool.\<close>

definition srcPath :: "string \<Rightarrow> string \<Rightarrow> string" where
  "srcPath folderPrefix pathSuffix =
     (let pathSuffix' =
            (if length pathSuffix > 0 \<and> pathSuffix ! 0 = CHR ''/''
             then drop 1 pathSuffix else pathSuffix)
      in Join [folderPrefix, pathSuffix'])"

text \<open>Lines 280 to 319: the command line and the child's environment.\<close>

definition s5cmd_Cmd ::
  "'w os \<Rightarrow> string \<Rightarrow> string \<Rightarrow> string \<Rightarrow> string \<Rightarrow> string \<Rightarrow> string \<Rightarrow> string \<Rightarrow> bool
     \<Rightarrow> 'w \<Rightarrow> Cmd" where
  "s5cmd_Cmd sys folderPrefix awsEndpointURL s3BucketPath awsCredsFile awsProfile pathSuffix
       s5cmdBinary hasAwsEnvCreds w =
     (let destPath = s3BucketPath;
          cmdArguments = [''--json'', ''--log'', LogLevel];
          cmdArguments1 =
            (if awsEndpointURL \<noteq> [] then cmdArguments @ [''--endpoint-url'', awsEndpointURL]
             else cmdArguments);
          cmdArguments2 =
            (if hasAwsEnvCreds
             then cmdArguments1 @ [''cp'', srcPath folderPrefix pathSuffix, destPath]
             else cmdArguments1 @
                    [''--credentials-file'', awsCredsFile, ''--profile'', awsProfile, ''cp'',
                     srcPath folderPrefix pathSuffix, destPath])
      in \<lparr>Path = s5cmdBinary, Args = cmdArguments2,
          Env = (if hasAwsEnvCreds
                 then Environ sys w @
                        [''AWS_ACCESS_KEY_ID='' @ Getenv sys ''AWS_ACCESS_KEY_ID'' w,
                         ''AWS_SECRET_ACCESS_KEY='' @ Getenv sys ''AWS_SECRET_ACCESS_KEY'' w,
                         ''AWS_DEFAULT_REGION='' @ Getenv sys ''AWS_DEFAULT_REGION'' w]
                 else Environ sys w)\<rparr>)"

definition runS5cmd ::
  "'w os \<Rightarrow> string \<Rightarrow> string \<Rightarrow> string \<Rightarrow> string \<Rightarrow> string \<Rightarrow> string \<Rightarrow> string \<Rightarrow> string
     \<Rightarrow> bool \<Rightarrow> 'w \<Rightarrow> error option \<times> 'w" where
  "runS5cmd sys folderPrefix awsEndpointURL s3BucketPath awsCredsFile awsProfile jsonOutputFile
       pathSuffix s5cmdBinary hasAwsEnvCreds w =
     (let cmd = s5cmd_Cmd sys folderPrefix awsEndpointURL s3BucketPath awsCredsFile awsProfile
                  pathSuffix s5cmdBinary hasAwsEnvCreds w;
          (created, w1) = Create sys jsonOutputFile w
      in if \<not> created then (Some ErrCreatingOutputFile, w1)
         else (let (ran, w2) = Run sys cmd jsonOutputFile w1
               in (if ran then None else Some ErrExit, w2)))"

text \<open>
  \<^verbatim>\<open>processFiles\<close>; the deferred \<^verbatim>\<open>os.Remove(jsonOutputFile)\<close> runs on every return after
  the job id exists, its result is dropped.
\<close>

definition processFiles ::
  "'w os \<Rightarrow> string \<Rightarrow> string \<Rightarrow> string \<Rightarrow> string \<Rightarrow> string \<Rightarrow> string \<Rightarrow> string \<Rightarrow> bool
     \<Rightarrow> 'w \<Rightarrow> (Summary \<times> error option) \<times> 'w" where
  "processFiles sys folderPrefix awsEndpointURL s3BucketPath awsCredsFile awsProfile pathSuffix
       s5cmdBinary hasAwsEnvCreds w =
     (case NewRandom sys w of
        (None, w0) \<Rightarrow> ((Summary_zero, Some ErrGeneratingJobID), w0)
      | (Some jobID, w0) \<Rightarrow>
          (let jsonOutputFile = jobID @ ''.json'';
               (err, w1) = runS5cmd sys folderPrefix awsEndpointURL s3BucketPath awsCredsFile
                             awsProfile jsonOutputFile pathSuffix s5cmdBinary hasAwsEnvCreds w0
           in case err of
                Some e \<Rightarrow>
                  (let (isNoMatchError, _) = checkForNoMatchError sys jsonOutputFile w1
                   in ((Summary_zero,
                        if isNoMatchError then None else Some (ErrRunningS5cmd jobID e)),
                       snd (Remove sys jsonOutputFile w1)))
              | None \<Rightarrow>
                  (let ((summary, perr), w2) = parseAndCleanup sys folderPrefix jsonOutputFile w1
                   in ((case perr of
                          Some e \<Rightarrow> (Summary_zero, Some (ErrParsingAndCleanup jobID e))
                        | None \<Rightarrow> (summary, None)),
                       snd (Remove sys jsonOutputFile w2)))))"

section \<open>The scheduler loop of \<^verbatim>\<open>main\<close>\<close>

text \<open>The values \<^verbatim>\<open>main\<close> settles from flags and environment before the loop.\<close>

record Config =
  actualFolderPrefix :: string
  actualPathSuffix :: string
  actualProcessInterval :: go_int
  actualNetdataEnabled :: bool
  actualNetdataAddress :: string
  actualS5cmdBinary :: string
  actualAwsEndpointURL :: string
  actualAwsCredsFile :: string
  actualAwsProfile :: string
  actualS3BucketPath :: string
  hasAwsEnvCreds :: bool

text \<open>
  What the loop writes: log lines and metric batches. A summary line carries the integers
  it prints (the megabyte figure is derived from the byte total); a metric batch carries
  the summary and run count it is formatted from.
\<close>

datatype emission =
    Log_ShutdownSignalReceived
  | Send_ShutdownMetrics Summary go_int
  | Log_ErrorSendingFinalMetrics error
  | Log_FinalMetricsSent
  | Log_FinalSummary go_int go_int go_int go_int go_int
  | Log_ShutdownComplete
  | Log_ErrorProcessingFiles error
  | Send_RunMetrics Summary go_int
  | Log_ErrorSendingMetrics error
  | Log_PeriodicSummary go_int go_int go_int go_int go_int

definition sendToNetdata ::
  "'w os \<Rightarrow> string \<Rightarrow> Summary \<Rightarrow> go_int \<Rightarrow> 'w \<Rightarrow> emission list \<times> error option" where
  "sendToNetdata sys address summary runCount w =
     (if Dial sys address w then ([Send_RunMetrics summary runCount], None)
      else ([], Some (ErrConnectNetdata address)))"

definition sendShutdownMetrics ::
  "'w os \<Rightarrow> string \<Rightarrow> Summary \<Rightarrow> go_int \<Rightarrow> 'w \<Rightarrow> emission list \<times> error option" where
  "sendShutdownMetrics sys address summary totalRuns w =
     (if Dial sys address w then ([Send_ShutdownMetrics summary totalRuns], None)
      else ([], Some (ErrConnectNetdata address)))"

text \<open>\<^verbatim>\<open>1 * time.Minute\<close> in nanoseconds.\<close>

definition loggingInterval :: go_int where
  "loggingInterval = 60000000000"

text \<open>
  Go's integer division truncates toward zero and panics on a zero divisor
  (\<open>None\<close>).
\<close>

definition go_div :: "go_int \<Rightarrow> go_int \<Rightarrow> go_int option" where
  "go_div a b = (if b = 0 then None else Some (word_of_int (sint a sdiv sint b)))"

text \<open>Lines 156 to 160.\<close>

definition runsPerLog :: "go_int \<Rightarrow> go_int option" where
  "runsPerLog processInterval =
     (case go_div loggingInterval processInterval of
        None \<Rightarrow> None
      | Some q \<Rightarrow> Some (if sint q < 1 then 1 else q))"

record LoopState =
  accumulatedSummary :: Summary
  runCounter :: go_int

definition LoopState_init :: LoopState where
  "LoopState_init = \<lparr>accumulatedSummary = Summary_zero, runCounter = 0\<rparr>"

text \<open>Lines 221 to 224: folding one run's summary into the accumulator.\<close>

definition accumulate :: "Summary \<Rightarrow> Summary \<Rightarrow> Summary" where
  "accumulate acc summary =
     \<lparr>FilesTransferred = FilesTransferred acc + FilesTransferred summary,
      FilesDeleted = FilesDeleted acc + FilesDeleted summary,
      TotalBytes = TotalBytes acc + TotalBytes summary,
      FilesFailed = FilesFailed acc @ FilesFailed summary\<rparr>"

text \<open>The \<^verbatim>\<open>case <-ticker.C\<close> branch, lines 199 to 244.\<close>

definition tick ::
  "'w os \<Rightarrow> Config \<Rightarrow> go_int \<Rightarrow> LoopState \<times> 'w \<Rightarrow> emission list \<times> LoopState \<times> 'w" where
  "tick sys cfg runsPerLog' st =
     (let (ls, w) = st;
          ((summary, err), w1) =
            processFiles sys (actualFolderPrefix cfg) (actualAwsEndpointURL cfg)
              (actualS3BucketPath cfg) (actualAwsCredsFile cfg) (actualAwsProfile cfg)
              (actualPathSuffix cfg) (actualS5cmdBinary cfg) (hasAwsEnvCreds cfg) w;
          out1 = (case err of Some e \<Rightarrow> [Log_ErrorProcessingFiles e] | None \<Rightarrow> []);
          out2 =
            (if actualNetdataEnabled cfg then
               (case sendToNetdata sys (actualNetdataAddress cfg) summary 1 w1 of
                  (sent, Some e) \<Rightarrow> sent @ [Log_ErrorSendingMetrics e]
                | (sent, None) \<Rightarrow> sent)
             else []);
          acc = accumulate (accumulatedSummary ls) summary;
          rc = runCounter ls + 1
      in if sint runsPerLog' \<le> sint rc then
           (out1 @ out2 @
              (if 0 < sint (FilesTransferred acc)
               then [Log_PeriodicSummary rc (FilesTransferred acc) (FilesDeleted acc)
                       (TotalBytes acc) (len (FilesFailed acc))]
               else []),
            \<lparr>accumulatedSummary = Summary_zero, runCounter = 0\<rparr>, w1)
         else (out1 @ out2, \<lparr>accumulatedSummary = acc, runCounter = rc\<rparr>, w1))"

text \<open>The \<^verbatim>\<open>case <-ctx.Done()\<close> branch, lines 171 to 197, up to the \<^verbatim>\<open>return\<close>.\<close>

definition shutdown :: "'w os \<Rightarrow> Config \<Rightarrow> LoopState \<times> 'w \<Rightarrow> emission list" where
  "shutdown sys cfg st =
     (let (ls, w) = st;
          acc = accumulatedSummary ls;
          rc = runCounter ls
      in [Log_ShutdownSignalReceived] @
         (if actualNetdataEnabled cfg \<and> (0 < sint (FilesTransferred acc) \<or> 0 < sint rc) then
            (case sendShutdownMetrics sys (actualNetdataAddress cfg) acc rc w of
               (sent, Some e) \<Rightarrow> sent @ [Log_ErrorSendingFinalMetrics e]
             | (sent, None) \<Rightarrow> sent @ [Log_FinalMetricsSent])
          else []) @
         (if 0 < sint (FilesTransferred acc) \<or> 0 < sint rc then
            [Log_FinalSummary (FilesTransferred acc) (FilesDeleted acc) (TotalBytes acc)
               (len (FilesFailed acc)) rc]
          else []) @
         [Log_ShutdownComplete])"

text \<open>
  The \<^verbatim>\<open>select\<close> of the loop takes one ready branch at a time; the sequence of branches
  taken is the input. \<open>Exited n\<close> is the process ending with status \<open>n\<close> (returning from
  \<^verbatim>\<open>main\<close> is status 0, \<^verbatim>\<open>log.Fatal\<close> is status 1), \<open>Panicked\<close> the run-time panic,
  \<open>Running\<close> the loop still waiting once the given branches are used up.
\<close>

datatype branch = CtxDone | TickerFired

datatype outcome = Running LoopState | Exited nat | Panicked

fun main_loop ::
  "'w os \<Rightarrow> Config \<Rightarrow> go_int \<Rightarrow> branch list \<Rightarrow> LoopState \<times> 'w
     \<Rightarrow> emission list \<times> outcome \<times> 'w" where
  "main_loop sys cfg runsPerLog' [] st = ([], Running (fst st), snd st)"
| "main_loop sys cfg runsPerLog' (CtxDone # bs) st = (shutdown sys cfg st, Exited 0, snd st)"
| "main_loop sys cfg runsPerLog' (TickerFired # bs) st =
     (let (out1, ls1, w1) = tick sys cfg runsPerLog' st;
          (out2, res, w2) = main_loop sys cfg runsPerLog' bs (ls1, w1)
      in (out1 @ out2, res, w2))"

text \<open>
  \<^verbatim>\<open>main\<close> from line 125 on: the two fatal configuration checks, the division of line
  157, \<^verbatim>\<open>time.NewTicker\<close> (which panics on a non-positive period), then the loop.
\<close>

definition main :: "'w os \<Rightarrow> Config \<Rightarrow> branch list \<Rightarrow> 'w \<Rightarrow> emission list \<times> outcome \<times> 'w" where
  "main sys cfg bs w =
     (if actualS3BucketPath cfg = [] then ([], Exited 1, w)
      else if actualAwsCredsFile cfg = [] \<and> \<not> hasAwsEnvCreds cfg then ([], Exited 1, w)
      else (case runsPerLog (actualProcessInterval cfg) of
              None \<Rightarrow> ([], Panicked, w)
            | Some n \<Rightarrow>
                if sint (actualProcessInterval cfg) \<le> 0 then ([], Panicked, w)
                else main_loop sys cfg n bs (LoopState_init, w)))"

section \<open>A concrete file tree\<close>

text \<open>The absolute path with the given elements; none is the root.\<close>

definition abs_path :: "string list \<Rightarrow> string" where
  "abs_path elems = Separator # strings_Join elems [Separator]"

text \<open>
  A world for statements about which files exist: plain files in a fixed set of
  directories, without symbolic links. \<open>contents\<close> maps the absolute path of each plain
  file that exists to the bytes stored there, \<open>undeletable\<close> holds the files whose removal
  the system refuses, \<open>directories\<close> the absolute paths of the directories, \<open>cwd\<close> the
  working directory. Directories are neither created nor removed, and none of them is
  empty.

  A path name is resolved the way the system resolves it: from the root when it starts
  with a separator and from the working directory otherwise, element by element; an
  empty element and \<^verbatim>\<open>.\<close> stay where they are, \<^verbatim>\<open>..\<close> goes to the parent (the root is its
  own parent), and any other element before the last one must name a directory.
  \<open>lookup\<close> gives the absolute path of the plain file that a name denotes; the empty name
  and a name ending in a separator, in \<^verbatim>\<open>.\<close> or in \<^verbatim>\<open>..\<close> denote none.
\<close>

record tree =
  contents :: "string \<rightharpoonup> string"
  undeletable :: "string set"
  directories :: "string set"
  cwd :: string

fun walk :: "string set \<Rightarrow> string list \<Rightarrow> string list \<Rightarrow> string list option" where
  "walk dirs cur [] = Some cur"
| "walk dirs cur (e # es) =
     (if e = [] \<or> e = [dot] then walk dirs cur es
      else if e = [dot, dot] then walk dirs (butlast cur) es
      else if abs_path (cur @ [e]) \<in> dirs then walk dirs (cur @ [e]) es
      else None)"

definition lookup :: "tree \<Rightarrow> string \<Rightarrow> string option" where
  "lookup t name =
     (if name = [] then None
      else (case walk (directories t) (if hd name = Separator then [] else elements (cwd t))
                   (butlast (segments name)) of
              None \<Rightarrow> None
            | Some dir \<Rightarrow>
                (let final = last (segments name)
                 in if final = [] \<or> final = [dot] \<or> final = [dot, dot] then None
                    else Some (abs_path (dir @ [final])))))"

text \<open>
  Removing a name succeeds exactly when it denotes a plain file that exists and whose
  removal is not refused; it removes that file and changes nothing else.
\<close>

definition tree_Remove :: "string \<Rightarrow> tree \<Rightarrow> bool \<times> tree" where
  "tree_Remove name t =
     (case lookup t name of
        None \<Rightarrow> (False, t)
      | Some file \<Rightarrow>
          (if contents t file \<noteq> None \<and> file \<notin> undeletable t
           then (True, t\<lparr>contents := (contents t)(file := None)\<rparr>)
           else (False, t)))"

definition tree_Open :: "string \<Rightarrow> tree \<Rightarrow> open_result" where
  "tree_Open name t =
     (case lookup t name of
        None \<Rightarrow> NotExist
      | Some file \<Rightarrow>
          (case contents t file of None \<Rightarrow> NotExist | Some bytes \<Rightarrow> Opened bytes EOF))"

definition tree_Create :: "string \<Rightarrow> tree \<Rightarrow> bool \<times> tree" where
  "tree_Create name t =
     (case lookup t name of
        None \<Rightarrow> (False, t)
      | Some file \<Rightarrow>
          (if file \<in> directories t then (False, t)
           else (True, t\<lparr>contents := (contents t)(file \<mapsto> [])\<rparr>)))"

text \<open>
  The tool's run and the decoders stay parameters; what the tool prints goes to the file
  created under the given name.
\<close>

definition tree_os ::
  "(Cmd \<Rightarrow> tree \<Rightarrow> bool \<times> string) \<Rightarrow> (string \<Rightarrow> JobResult option) \<Rightarrow> (string \<Rightarrow> string option)
     \<Rightarrow> tree os" where
  "tree_os tool unmarshalJobResult unmarshalError =
     \<lparr>NewRandom = (\<lambda>t. (Some ''job'', t)),
      Create = tree_Create,
      Run = (\<lambda>cmd name t.
               (fst (tool cmd t),
                (case lookup t name of
                   None \<Rightarrow> t
                 | Some file \<Rightarrow> t\<lparr>contents := (contents t)(file \<mapsto> snd (tool cmd t))\<rparr>))),
      Open = tree_Open,
      Remove = tree_Remove,
      Getenv = (\<lambda>key t. []),
      Environ = (\<lambda>t. []),
      Dial = (\<lambda>address t. True),
      Unmarshal_JobResult = unmarshalJobResult,
      Unmarshal_s5Error = unmarshalError\<rparr>"

text \<open>
  The complete lines of a byte string and the records they decode to, in order: the
  lines \<^verbatim>\<open>ReadBytes\<close> hands to the loop and the records the loop reconciles.
\<close>

function complete_lines :: "string \<Rightarrow> string list" where
  "complete_lines unread =
     (case ReadBytes newline unread of
        None \<Rightarrow> []
      | Some (line, rest) \<Rightarrow> line # complete_lines rest)"
  by pat_completeness auto
termination
proof -
  have shorter: "length rest < length s" if "ReadBytes delim s = Some (line, rest)"
    for delim s line rest
    using that by (induction s arbitrary: line rest) (auto split: if_splits option.splits)
  show ?thesis
    by (relation "measure length") (auto simp: shorter)
qed

definition records :: "'w os \<Rightarrow> string \<Rightarrow> JobResult list" where
  "records sys content = List.map_filter (Unmarshal_JobResult sys) (complete_lines content)"

text \<open>A record the loop acts on (line 426).\<close>

definition actionable :: "JobResult \<Rightarrow> bool" where
  "actionable result \<longleftrightarrow>
     Operation result = ''cp'' \<and> Success result \<and> Type (Object result) = ''file''"

text \<open>
  The world the loop is in once it has reconciled the records \<open>rs\<close>, started in \<open>w\<close>.
\<close>

definition world_after :: "'w os \<Rightarrow> JobResult list \<Rightarrow> 'w \<Rightarrow> 'w" where
  "world_after sys rs w = snd (fold (reconcile sys) rs (Summary_zero, w))"

section \<open>Sample documents\<close>

text \<open>
  Three documents of the tool's protocol and what \<^verbatim>\<open>json.Unmarshal\<close> makes of them, with
  or without a final newline (the decoder skips white space); every other input is
  rejected by these sample decoders. They serve the concrete instances below.
\<close>

definition doc_a :: string where
  \<open>doc_a = ''{"operation":"cp","success":true,"source":"/tmp/a.gz","destination":"s3://b/a.gz","object":{"type":"file","size":1024}}''\<close>

definition doc_b :: string where
  \<open>doc_b = ''{"operation":"cp","success":true,"source":"/tmp/b.gz","destination":"s3://b/b.gz","object":{"type":"file","size":2048}}''\<close>

definition doc_no_match :: string where
  \<open>doc_no_match = ''{"error":"no match found for pattern X"}''\<close>

definition rec_a :: JobResult where
  "rec_a = \<lparr>Operation = ''cp'', Success = True, Source = ''/tmp/a.gz'',
            Destination = ''s3://b/a.gz'', Object = \<lparr>Type = ''file'', Size = 1024\<rparr>\<rparr>"

definition rec_b :: JobResult where
  "rec_b = \<lparr>Operation = ''cp'', Success = True, Source = ''/tmp/b.gz'',
            Destination = ''s3://b/b.gz'', Object = \<lparr>Type = ''file'', Size = 2048\<rparr>\<rparr>"

text \<open>A report that names the first sample file through a \<^verbatim>\<open>.\<close> element.\<close>

definition doc_a_dot :: string where
  \<open>doc_a_dot = ''{"operation":"cp","success":true,"source":"/tmp/./a.gz","destination":"s3://b/a.gz","object":{"type":"file","size":1024}}''\<close>

definition rec_a_dot :: JobResult where
  "rec_a_dot = \<lparr>Operation = ''cp'', Success = True, Source = ''/tmp/./a.gz'',
                Destination = ''s3://b/a.gz'', Object = \<lparr>Type = ''file'', Size = 1024\<rparr>\<rparr>"

definition rec_zero :: JobResult where
  "rec_zero = \<lparr>Operation = [], Success = False, Source = [], Destination = [],
               Object = \<lparr>Type = [], Size = 0\<rparr>\<rparr>"

definition chomp :: "string \<Rightarrow> string" where
  "chomp data = (if data \<noteq> [] \<and> last data = newline then butlast data else data)"

definition sample_Unmarshal_JobResult :: "string \<Rightarrow> JobResult option" where
  "sample_Unmarshal_JobResult data =
     (if chomp data = doc_a then Some rec_a
      else if chomp data = doc_b then Some rec_b
      else if chomp data = doc_no_match then Some rec_zero
      else None)"

text \<open>The sample decoder extended by the report with the \<^verbatim>\<open>.\<close> element.\<close>

definition dotted_Unmarshal_JobResult :: "string \<Rightarrow> JobResult option" where
  "dotted_Unmarshal_JobResult data =
     (if chomp data = doc_a_dot then Some rec_a_dot else sample_Unmarshal_JobResult data)"

definition sample_Unmarshal_s5Error :: "string \<Rightarrow> string option" where
  "sample_Unmarshal_s5Error data =
     (if chomp data = doc_no_match then Some ''no match found for pattern X''
      else if chomp data = doc_a \<or> chomp data = doc_b then Some []
      else None)"

text \<open>A tool that copies nothing and reports that the glob matched nothing.\<close>

definition tool_no_match :: "Cmd \<Rightarrow> tree \<Rightarrow> bool \<times> string" where
  "tool_no_match cmd t = (False, doc_no_match @ [newline])"

text \<open>A tool that fails and leaves a diagnostic that is not a JSON document.\<close>

definition tool_crash :: "Cmd \<Rightarrow> tree \<Rightarrow> bool \<times> string" where
  "tool_crash cmd t = (False, ''ERROR: access denied'' @ [newline])"

text \<open>A tool that reports both sample files copied.\<close>

definition tool_copies :: "Cmd \<Rightarrow> tree \<Rightarrow> bool \<times> string" where
  "tool_copies cmd t = (True, doc_a @ [newline] @ doc_b @ [newline])"

definition sample_os :: "(Cmd \<Rightarrow> tree \<Rightarrow> bool \<times> string) \<Rightarrow> tree os" where
  "sample_os tool = tree_os tool sample_Unmarshal_JobResult sample_Unmarshal_s5Error"

text \<open>
  A tree holding both sample files, the second one protected against removal, and the
  output file of a finished job in the working directory.
\<close>

definition sample_tree :: "string \<Rightarrow> tree" where
  "sample_tree sink =
     \<lparr>contents = [''/tmp/a.gz'' \<mapsto> ''aaaa'', ''/tmp/b.gz'' \<mapsto> ''bbbb'',
                  ''/srv/job.json'' \<mapsto> sink],
      undeletable = {''/tmp/b.gz''},
      directories = {[Separator], ''/tmp'', ''/srv''},
      cwd = ''/srv''\<rparr>"

definition sample_Config :: Config where
  "sample_Config =
     \<lparr>actualFolderPrefix = ''/tmp/'', actualPathSuffix = ''/**/**/*.gz'',
      actualProcessInterval = 1000000000, actualNetdataEnabled = True,
      actualNetdataAddress = ''127.0.0.1:8125'', actualS5cmdBinary = ''s5cmd'',
      actualAwsEndpointURL = [], actualAwsCredsFile = ''/etc/aws/credentials'',
      actualAwsProfile = ''default'', actualS3BucketPath = ''s3://b/'',
      hasAwsEnvCreds = False\<rparr>"

section \<open>The parsing loop as a fold over the decoded records\<close>

declare parse_loop.simps [simp del] complete_lines.simps [simp del] Clean_loop.simps(2) [simp del]

lemma records_unfold:
  "records sys unread =
     (case ReadBytes newline unread of
        None \<Rightarrow> []
      | Some (line, rest) \<Rightarrow>
          (case Unmarshal_JobResult sys line of
             None \<Rightarrow> records sys rest
           | Some result \<Rightarrow> result # records sys rest))"
  by (simp add: records_def complete_lines.simps [of unread] map_filter_simps
      split: option.splits)

lemma parse_loop_fold:
  "parse_loop sys ending unread st =
     ((fst (fold (reconcile sys) (records sys unread) st),
       (case ending of EOF \<Rightarrow> None | IOFault \<Rightarrow> Some ErrReadingJobResultFile)),
      snd (fold (reconcile sys) (records sys unread) st))"
proof (induction sys ending unread st rule: parse_loop.induct)
  case (1 sys ending unread st)
  show ?case
  proof (cases "ReadBytes newline unread")
    case None
    then show ?thesis
      by (cases ending)
        (simp_all add: parse_loop.simps [of sys _ unread] records_unfold [of sys unread])
  next
    case (Some a)
    obtain line rest where a: "a = (line, rest)" by (cases a)
    from Some a have rb: "ReadBytes newline unread = Some (line, rest)" by simp
    show ?thesis
    proof (cases "Unmarshal_JobResult sys line")
      case None
      from "1.IH"(1) [OF rb refl None] rb None show ?thesis
        by (simp add: parse_loop.simps [of sys _ unread] records_unfold [of sys unread])
    next
      case (Some result)
      from "1.IH"(2) [OF rb refl Some] rb Some show ?thesis
        by (simp add: parse_loop.simps [of sys _ unread] records_unfold [of sys unread])
    qed
  qed
qed

lemma reconcile_unactionable:
  "\<not> actionable result \<Longrightarrow> reconcile sys result st = st"
  by (cases st) (auto simp: reconcile_def actionable_def)

lemma reconcile_actionable:
  assumes "actionable result"
  shows "reconcile sys result (summary, w) =
     (if fst (Remove sys (Source result) w)
      then summary\<lparr>FilesTransferred := FilesTransferred summary + 1,
                    TotalBytes := TotalBytes summary + Size (Object result),
                    FilesDeleted := FilesDeleted summary + 1\<rparr>
      else summary\<lparr>FilesTransferred := FilesTransferred summary + 1,
                    TotalBytes := TotalBytes summary + Size (Object result),
                    FilesFailed := FilesFailed summary @ [Source result]\<rparr>,
      snd (Remove sys (Source result) w))"
  using assms by (simp add: reconcile_def actionable_def Let_def split_beta)

subsection \<open>The world along the pass\<close>

lemma tree_os_Remove [simp]: "Remove (tree_os tool uj ue) = tree_Remove"
  by (simp add: tree_os_def)

lemma tree_os_Open [simp]: "Open (tree_os tool uj ue) = tree_Open"
  by (simp add: tree_os_def)

lemma reconcile_world:
  "snd (reconcile sys result (summary, w)) =
     (if actionable result then snd (Remove sys (Source result) w) else w)"
  by (simp add: reconcile_unactionable reconcile_actionable)

lemma world_after_snoc:
  "world_after sys (rs @ [r]) w =
     (if actionable r then snd (Remove sys (Source r) (world_after sys rs w))
      else world_after sys rs w)"
proof -
  obtain s1 w1 where st: "fold (reconcile sys) rs (Summary_zero, w) = (s1, w1)"
    by (cases "fold (reconcile sys) rs (Summary_zero, w)")
  show ?thesis
    using reconcile_world [of sys r s1 w1] by (simp add: world_after_def st)
qed

lemma world_after_shrinks:
  assumes removed: "\<And>name w. fst (Remove sys name w) \<Longrightarrow>
        target w name \<in> present w \<and>
        present (snd (Remove sys name w)) = present w - {target w name}"
    and refused: "\<And>name w. \<not> fst (Remove sys name w) \<Longrightarrow>
        present (snd (Remove sys name w)) = present w"
  shows "present (world_after sys rs w) \<subseteq> present w"
proof (induction rs rule: rev_induct)
  case Nil
  show ?case by (simp add: world_after_def)
next
  case (snoc r rs)
  show ?case
  proof (cases "actionable r \<and> fst (Remove sys (Source r) (world_after sys rs w))")
    case True
    with removed [of "Source r" "world_after sys rs w"] snoc show ?thesis
      by (auto simp: world_after_snoc)
  next
    case False
    with refused [of "Source r" "world_after sys rs w"] snoc show ?thesis
      by (auto simp: world_after_snoc)
  qed
qed

lemma deleted_iff_removed:
  assumes removed: "\<And>name w. fst (Remove sys name w) \<Longrightarrow>
        target w name \<in> present w \<and>
        present (snd (Remove sys name w)) = present w - {target w name}"
    and refused: "\<And>name w. \<not> fst (Remove sys name w) \<Longrightarrow>
        present (snd (Remove sys name w)) = present w"
  shows "(x \<in> present w \<and> x \<notin> present (world_after sys rs w)) \<longleftrightarrow>
     (\<exists>i < length rs. actionable (rs ! i) \<and>
        fst (Remove sys (Source (rs ! i)) (world_after sys (take i rs) w)) \<and>
        target (world_after sys (take i rs) w) (Source (rs ! i)) = x)"
proof (induction rs rule: rev_induct)
  case Nil
  show ?case by (simp add: world_after_def)
next
  case (snoc r rs)
  let ?P = "\<lambda>rs i. actionable (rs ! i) \<and>
        fst (Remove sys (Source (rs ! i)) (world_after sys (take i rs) w)) \<and>
        target (world_after sys (take i rs) w) (Source (rs ! i)) = x"
  let ?w = "world_after sys rs w"
  have old: "?P (rs @ [r]) i \<longleftrightarrow> ?P rs i" if "i < length rs" for i
    using that by (simp add: nth_append)
  have new: "?P (rs @ [r]) (length rs) \<longleftrightarrow>
      actionable r \<and> fst (Remove sys (Source r) ?w) \<and> target ?w (Source r) = x"
    by simp
  have split: "(\<exists>i < length (rs @ [r]). ?P (rs @ [r]) i) \<longleftrightarrow>
      (\<exists>i < length rs. ?P rs i) \<or>
      (actionable r \<and> fst (Remove sys (Source r) ?w) \<and> target ?w (Source r) = x)"
    (is "?L \<longleftrightarrow> ?R")
  proof
    assume ?L
    then obtain i where i: "i < Suc (length rs)" "?P (rs @ [r]) i" by auto
    show ?R
    proof (cases "i < length rs")
      case True
      with i(2) old [of i] show ?thesis by blast
    next
      case False
      with i(1) have "i = length rs" by simp
      with i(2) new show ?thesis by blast
    qed
  next
    assume ?R
    then show ?L
    proof
      assume "\<exists>i < length rs. ?P rs i"
      then obtain i where i: "i < length rs" "?P rs i" by blast
      with old [of i] have "i < length (rs @ [r]) \<and> ?P (rs @ [r]) i" by simp
      then show ?L by blast
    next
      assume "actionable r \<and> fst (Remove sys (Source r) ?w) \<and> target ?w (Source r) = x"
      with new have "length rs < length (rs @ [r]) \<and> ?P (rs @ [r]) (length rs)" by simp
      then show ?L by blast
    qed
  qed
  have sub: "present ?w \<subseteq> present w"
    by (rule world_after_shrinks [of sys target present, OF removed refused])
  have step: "(x \<in> present w \<and> x \<notin> present (world_after sys (rs @ [r]) w)) \<longleftrightarrow>
      (x \<in> present w \<and> x \<notin> present ?w) \<or>
      (actionable r \<and> fst (Remove sys (Source r) ?w) \<and> target ?w (Source r) = x)"
  proof (cases "actionable r \<and> fst (Remove sys (Source r) ?w)")
    case True
    with removed [of "Source r" ?w] sub show ?thesis
      by (auto simp: world_after_snoc)
  next
    case False
    with refused [of "Source r" ?w] show ?thesis
      by (auto simp: world_after_snoc)
  qed
  from snoc split step show ?case by simp
qed

subsection \<open>Removal on the concrete tree\<close>

lemma tree_Remove_removed:
  assumes "fst (tree_Remove name t)"
  shows "the (lookup t name) \<in> dom (contents t) \<and>
     dom (contents (snd (tree_Remove name t))) = dom (contents t) - {the (lookup t name)}"
  using assms by (auto simp: tree_Remove_def split: option.splits if_splits)

lemma tree_Remove_refused:
  assumes "\<not> fst (tree_Remove name t)"
  shows "dom (contents (snd (tree_Remove name t))) = dom (contents t)"
  using assms by (auto simp: tree_Remove_def split: option.splits if_splits)

section \<open>Claim C1: deletion only after confirmation\<close>

text \<open>
  Claim C1, as amended. Take any system in which a removal that succeeds deletes exactly
  the file its path names (\<open>target w name\<close>, among the files \<open>present w\<close>) and a removal
  that fails deletes nothing. For every pass of \<open>parseAndCleanup\<close> over an output file that
  opens, the world after the pass is the one the loop reaches over the decoded records,
  and for every number \<open>k\<close> of records reconciled so far (all of them at the end of the
  pass): a file \<open>x\<close> that was present before the pass is gone if and only if one of those
  \<open>k\<close> records has operation \<^verbatim>\<open>cp\<close>, success true and object type \<^verbatim>\<open>file\<close>, its source path
  named \<open>x\<close> when the loop reached it, and the removal of that path succeeded. So no file
  goes before or without its confirmation record. The claim's unqualified "if and only
  if" fails where the removal fails, and a record confirms a file by any path that names
  it, not only by one spelling.
\<close>

theorem deleted_iff_confirmed_and_removed:
  assumes "\<And>name w. fst (Remove sys name w) \<Longrightarrow>
        target w name \<in> present w \<and>
        present (snd (Remove sys name w)) = present w - {target w name}"
    and "\<And>name w. \<not> fst (Remove sys name w) \<Longrightarrow>
        present (snd (Remove sys name w)) = present w"
    and "Open sys jsonOutputFile w = Opened content ending"
    and "k \<le> length (records sys content)"
  shows
   "snd (parseAndCleanup sys folderPrefix jsonOutputFile w) =
      world_after sys (records sys content) w \<and>
    ((x \<in> present w \<and> x \<notin> present (world_after sys (take k (records sys content)) w))
     \<longleftrightarrow>
     (\<exists>i < k.
        Operation (records sys content ! i) = ''cp'' \<and> Success (records sys content ! i) \<and>
        Type (Object (records sys content ! i)) = ''file'' \<and>
        fst (Remove sys (Source (records sys content ! i))
               (world_after sys (take i (records sys content)) w)) \<and>
        target (world_after sys (take i (records sys content)) w)
          (Source (records sys content ! i)) = x))"
proof
  show "snd (parseAndCleanup sys folderPrefix jsonOutputFile w) =
      world_after sys (records sys content) w"
    using assms(3) by (simp add: parseAndCleanup_def parse_loop_fold world_after_def)
  define rs where "rs = records sys content"
  have inner: "take i (take k rs) = take i rs \<and> take k rs ! i = rs ! i" if "i < k" for i
    using that by (simp add: min_def)
  have "(x \<in> present w \<and> x \<notin> present (world_after sys (take k rs) w)) \<longleftrightarrow>
     (\<exists>i < length (take k rs). actionable (take k rs ! i) \<and>
        fst (Remove sys (Source (take k rs ! i)) (world_after sys (take i (take k rs)) w)) \<and>
        target (world_after sys (take i (take k rs)) w) (Source (take k rs ! i)) = x)"
    by (rule deleted_iff_removed [of sys target present, OF assms(1) assms(2)])
  also have "length (take k rs) = k"
    using assms(4) by (simp add: rs_def)
  finally show "(x \<in> present w \<and>
        x \<notin> present (world_after sys (take k (records sys content)) w))
     \<longleftrightarrow>
     (\<exists>i < k.
        Operation (records sys content ! i) = ''cp'' \<and> Success (records sys content ! i) \<and>
        Type (Object (records sys content ! i)) = ''file'' \<and>
        fst (Remove sys (Source (records sys content ! i))
               (world_after sys (take i (records sys content)) w)) \<and>
        target (world_after sys (take i (records sys content)) w)
          (Source (records sys content ! i)) = x)"
    using inner unfolding rs_def actionable_def by auto
qed

text \<open>
  The theorem at the sample tree, with the files that exist as \<open>present\<close> and the file a
  name resolves to as \<open>target\<close>. The output file confirms the first sample file under the
  name \<^verbatim>\<open>/tmp/./a.gz\<close> and the second, protected one as \<^verbatim>\<open>/tmp/b.gz\<close>: the file \<^verbatim>\<open>/tmp/a.gz\<close>
  is gone after the pass.
\<close>

theorem deleted_iff_confirmed_and_removed_witness:
  "Open (tree_os tool_copies dotted_Unmarshal_JobResult sample_Unmarshal_s5Error) ''job.json''
      (sample_tree (doc_a_dot @ [newline] @ doc_b @ [newline])) =
     Opened (doc_a_dot @ [newline] @ doc_b @ [newline]) EOF \<and>
   records (tree_os tool_copies dotted_Unmarshal_JobResult sample_Unmarshal_s5Error)
     (doc_a_dot @ [newline] @ doc_b @ [newline]) = [rec_a_dot, rec_b] \<and>
   Source rec_a_dot = ''/tmp/./a.gz'' \<and>
   ''/tmp/a.gz'' \<in> dom (contents (sample_tree (doc_a_dot @ [newline] @ doc_b @ [newline]))) \<and>
   ''/tmp/a.gz'' \<notin> dom (contents (snd (parseAndCleanup
       (tree_os tool_copies dotted_Unmarshal_JobResult sample_Unmarshal_s5Error) ''/tmp/''
       ''job.json'' (sample_tree (doc_a_dot @ [newline] @ doc_b @ [newline])))))"
proof -
  define sys where
    "sys = tree_os tool_copies dotted_Unmarshal_JobResult sample_Unmarshal_s5Error"
  define t where "t = sample_tree (doc_a_dot @ [newline] @ doc_b @ [newline])"
  have o: "Open sys ''job.json'' t = Opened (doc_a_dot @ [newline] @ doc_b @ [newline]) EOF"
    unfolding sys_def t_def by code_simp
  have r: "records sys (doc_a_dot @ [newline] @ doc_b @ [newline]) = [rec_a_dot, rec_b]"
    unfolding sys_def by code_simp
  have k: "2 \<le> length (records sys (doc_a_dot @ [newline] @ doc_b @ [newline]))"
    unfolding r by simp
  have s: "Source rec_a_dot = ''/tmp/./a.gz''"
    by (simp add: rec_a_dot_def)
  have c: "''/tmp/a.gz'' \<in> dom (contents t)"
    by (simp add: t_def sample_tree_def)
  have rm: "fst (Remove sys ''/tmp/./a.gz'' t)"
    unfolding sys_def t_def by code_simp
  have tg: "the (lookup t ''/tmp/./a.gz'') = ''/tmp/a.gz''"
    unfolding t_def by code_simp
  have a: "Operation rec_a_dot = ''cp'' \<and> Success rec_a_dot \<and>
      Type (Object rec_a_dot) = ''file''"
    by (simp add: rec_a_dot_def)
  note inst = deleted_iff_confirmed_and_removed
    [of sys "\<lambda>t name. the (lookup t name)" "\<lambda>t. dom (contents t)" "''job.json''" t
      "doc_a_dot @ [newline] @ doc_b @ [newline]" EOF 2 "''/tmp/''" "''/tmp/a.gz''",
      OF _ _ o k]
  have removed: "fst (Remove sys name w) \<Longrightarrow>
      the (lookup w name) \<in> dom (contents w) \<and>
      dom (contents (snd (Remove sys name w))) = dom (contents w) - {the (lookup w name)}"
    for name w
    using tree_Remove_removed [of name w] by (simp add: sys_def)
  have refused: "\<not> fst (Remove sys name w) \<Longrightarrow>
      dom (contents (snd (Remove sys name w))) = dom (contents w)" for name w
    using tree_Remove_refused [of name w] by (simp add: sys_def)
  have first: "\<exists>i < (2 :: nat).
        Operation ([rec_a_dot, rec_b] ! i) = ''cp'' \<and> Success ([rec_a_dot, rec_b] ! i) \<and>
        Type (Object ([rec_a_dot, rec_b] ! i)) = ''file'' \<and>
        fst (Remove sys (Source ([rec_a_dot, rec_b] ! i))
               (world_after sys (take i [rec_a_dot, rec_b]) t)) \<and>
        the (lookup (world_after sys (take i [rec_a_dot, rec_b]) t)
          (Source ([rec_a_dot, rec_b] ! i))) = ''/tmp/a.gz''"
    using a s rm tg by (intro exI [of _ 0]) (simp add: world_after_def)
  from inst [OF removed refused] first
  have "snd (parseAndCleanup sys ''/tmp/'' ''job.json'' t) = world_after sys [rec_a_dot, rec_b] t"
    and "''/tmp/a.gz'' \<notin> dom (contents (world_after sys [rec_a_dot, rec_b] t))"
    unfolding r by simp_all
  then have "''/tmp/a.gz'' \<notin> dom (contents (snd (parseAndCleanup sys ''/tmp/'' ''job.json'' t)))"
    by simp
  with o r s c show ?thesis
    unfolding sys_def t_def by blast
qed

text \<open>
  The claim as stated fails: the output file confirms \<^verbatim>\<open>/tmp/b.gz\<close> as a successfully
  copied file, the file exists, and after the pass it still exists, because its removal
  is refused; the pass records it among the failed deletions.
\<close>

theorem confirmed_but_not_deleted_counterexample:
  "records (tree_os tool_copies sample_Unmarshal_JobResult sample_Unmarshal_s5Error)
     (doc_b @ [newline]) = [rec_b] \<and>
   Operation rec_b = ''cp'' \<and> Success rec_b \<and> Type (Object rec_b) = ''file'' \<and>
   Source rec_b = ''/tmp/b.gz'' \<and>
   contents (sample_tree (doc_b @ [newline])) ''/tmp/b.gz'' = Some ''bbbb'' \<and>
   contents (snd (parseAndCleanup
       (tree_os tool_copies sample_Unmarshal_JobResult sample_Unmarshal_s5Error) ''/tmp/''
       ''job.json'' (sample_tree (doc_b @ [newline])))) ''/tmp/b.gz'' = Some ''bbbb'' \<and>
   fst (parseAndCleanup
       (tree_os tool_copies sample_Unmarshal_JobResult sample_Unmarshal_s5Error) ''/tmp/''
       ''job.json'' (sample_tree (doc_b @ [newline]))) =
     (\<lparr>FilesTransferred = 1, FilesDeleted = 0, TotalBytes = 2048,
       FilesFailed = [''/tmp/b.gz'']\<rparr>, None)"
  by code_simp

section \<open>Claim C2: every transferred file is accounted for\<close>

lemma reconcile_accounted:
  assumes "FilesDeleted (fst st) + len (FilesFailed (fst st)) = FilesTransferred (fst st)"
  shows "FilesDeleted (fst (reconcile sys result st)) +
           len (FilesFailed (fst (reconcile sys result st))) =
         FilesTransferred (fst (reconcile sys result st))"
proof (cases "actionable result")
  case False
  with assms show ?thesis by (simp add: reconcile_unactionable)
next
  case True
  from assms show ?thesis
    using reconcile_actionable [OF True, of sys "fst st" "snd st"]
    by (simp add: len_def)
qed

lemma fold_reconcile_accounted:
  "FilesDeleted (fst st) + len (FilesFailed (fst st)) = FilesTransferred (fst st) \<Longrightarrow>
   FilesDeleted (fst (fold (reconcile sys) rs st)) +
     len (FilesFailed (fst (fold (reconcile sys) rs st))) =
   FilesTransferred (fst (fold (reconcile sys) rs st))"
  by (induction rs arbitrary: st) (simp_all add: reconcile_accounted)

lemma Summary_zero_accounted:
  "FilesDeleted Summary_zero + len (FilesFailed Summary_zero) = FilesTransferred Summary_zero"
  by (simp add: Summary_zero_def len_def)

lemma parseAndCleanup_accounted:
  assumes "parseAndCleanup sys folderPrefix jsonOutputFile w = ((summary, err), w')"
  shows "FilesDeleted summary + len (FilesFailed summary) = FilesTransferred summary"
proof (cases "Open sys jsonOutputFile w")
  case (Opened content ending)
  have "fst (fold (reconcile sys) (records sys content) (Summary_zero, w)) = summary"
    using assms Opened by (simp add: parseAndCleanup_def parse_loop_fold)
  then show ?thesis
    using fold_reconcile_accounted [of "(Summary_zero, w)" sys "records sys content"]
    by (simp add: Summary_zero_accounted)
qed (use assms in \<open>auto simp: parseAndCleanup_def Summary_zero_accounted\<close>)

lemma processFiles_accounted:
  assumes "processFiles sys folderPrefix awsEndpointURL s3BucketPath awsCredsFile awsProfile
             pathSuffix s5cmdBinary envCreds w = ((summary, err), w')"
  shows "FilesDeleted summary + len (FilesFailed summary) = FilesTransferred summary"
  using assms
  by (auto simp: processFiles_def Let_def Summary_zero_accounted
      split: prod.splits option.splits dest: parseAndCleanup_accounted)

text \<open>
  Claim C2. For every world, output file and decoder, the summary that \<open>parseAndCleanup\<close>
  produces (on every exit, also with a read error) and the summary that \<open>processFiles\<close>
  returns satisfy \<open>FilesDeleted + len(FilesFailed) = FilesTransferred\<close> in Go's 64-bit
  arithmetic. A record counted as transferred adds one to \<open>FilesTransferred\<close> and then
  either adds one to \<open>FilesDeleted\<close> and leaves the failed list alone (the removal
  succeeded), or leaves \<open>FilesDeleted\<close> alone and appends exactly its source path to the
  failed list (the removal failed): never both, never neither.
\<close>

theorem summary_accounting:
  "(let summary = fst (fst (parseAndCleanup sys folderPrefix jsonOutputFile w))
    in FilesDeleted summary + len (FilesFailed summary) = FilesTransferred summary) \<and>
   (let summary = fst (fst (processFiles sys folderPrefix awsEndpointURL s3BucketPath
                     awsCredsFile awsProfile pathSuffix s5cmdBinary envCreds w))
    in FilesDeleted summary + len (FilesFailed summary) = FilesTransferred summary) \<and>
   (\<forall>result summary w0.
      Operation result = ''cp'' \<and> Success result \<and> Type (Object result) = ''file'' \<longrightarrow>
      (let summary' = fst (reconcile sys result (summary, w0))
       in FilesTransferred summary' = FilesTransferred summary + 1 \<and>
          (if fst (Remove sys (Source result) w0)
           then FilesDeleted summary' = FilesDeleted summary + 1 \<and>
                FilesFailed summary' = FilesFailed summary
           else FilesDeleted summary' = FilesDeleted summary \<and>
                FilesFailed summary' = FilesFailed summary @ [Source result])))"
proof (intro conjI allI impI)
  show "let summary = fst (fst (parseAndCleanup sys folderPrefix jsonOutputFile w))
    in FilesDeleted summary + len (FilesFailed summary) = FilesTransferred summary"
    using parseAndCleanup_accounted [of sys folderPrefix jsonOutputFile w]
    by (cases "parseAndCleanup sys folderPrefix jsonOutputFile w") auto
next
  show "let summary = fst (fst (processFiles sys folderPrefix awsEndpointURL s3BucketPath
                     awsCredsFile awsProfile pathSuffix s5cmdBinary envCreds w))
    in FilesDeleted summary + len (FilesFailed summary) = FilesTransferred summary"
    using processFiles_accounted [of sys folderPrefix awsEndpointURL s3BucketPath awsCredsFile
        awsProfile pathSuffix s5cmdBinary envCreds w]
    by (cases "processFiles sys folderPrefix awsEndpointURL s3BucketPath awsCredsFile
        awsProfile pathSuffix s5cmdBinary envCreds w") auto
next
  fix result :: JobResult and summary :: Summary and w0
  assume "Operation result = ''cp'' \<and> Success result \<and> Type (Object result) = ''file''"
  then have "actionable result" by (simp add: actionable_def)
  from reconcile_actionable [OF this, of sys summary w0]
  show "let summary' = fst (reconcile sys result (summary, w0))
       in FilesTransferred summary' = FilesTransferred summary + 1 \<and>
          (if fst (Remove sys (Source result) w0)
           then FilesDeleted summary' = FilesDeleted summary + 1 \<and>
                FilesFailed summary' = FilesFailed summary
           else FilesDeleted summary' = FilesDeleted summary \<and>
                FilesFailed summary' = FilesFailed summary @ [Source result])"
    by simp
qed

text \<open>
  The theorem at the sample tree: two files are reported copied, one removal succeeds and
  one is refused, and \<open>1 + 1 = 2\<close>; the refused record alone gives \<open>0 + 1 = 1\<close>.
\<close>

theorem summary_accounting_witness:
  "fst (fst (parseAndCleanup (sample_os tool_copies) ''/tmp/'' ''job.json''
        (sample_tree (doc_a @ [newline] @ doc_b @ [newline])))) =
     \<lparr>FilesTransferred = 2, FilesDeleted = 1, TotalBytes = 3072, FilesFailed = [''/tmp/b.gz'']\<rparr> \<and>
   (1 :: go_int) + len [''/tmp/b.gz''] = 2 \<and>
   Operation rec_b = ''cp'' \<and> Success rec_b \<and> Type (Object rec_b) = ''file'' \<and>
   \<not> fst (Remove (sample_os tool_copies) (Source rec_b) (sample_tree [])) \<and>
   FilesTransferred (fst (reconcile (sample_os tool_copies) rec_b (Summary_zero, sample_tree []))) = 1 \<and>
   FilesDeleted (fst (reconcile (sample_os tool_copies) rec_b (Summary_zero, sample_tree []))) = 0 \<and>
   FilesFailed (fst (reconcile (sample_os tool_copies) rec_b (Summary_zero, sample_tree []))) =
     [''/tmp/b.gz'']"
proof -
  have ev: "fst (fst (parseAndCleanup (sample_os tool_copies) ''/tmp/'' ''job.json''
        (sample_tree (doc_a @ [newline] @ doc_b @ [newline])))) =
     \<lparr>FilesTransferred = 2, FilesDeleted = 1, TotalBytes = 3072, FilesFailed = [''/tmp/b.gz'']\<rparr>"
    by code_simp
  have b: "Operation rec_b = ''cp'' \<and> Success rec_b \<and> Type (Object rec_b) = ''file''"
    "Source rec_b = ''/tmp/b.gz''"
    by (simp_all add: rec_b_def)
  have rm: "\<not> fst (Remove (sample_os tool_copies) (Source rec_b) (sample_tree []))"
    by code_simp
  note inst = summary_accounting [of "sample_os tool_copies" "''/tmp/''" "''job.json''"
      "sample_tree (doc_a @ [newline] @ doc_b @ [newline])" "[]" "[]" "[]" "[]" "[]" "[]" False]
  from inst have "(1 :: go_int) + len [''/tmp/b.gz''] = 2"
    unfolding ev Let_def by simp
  moreover from inst b(1) rm have
    "FilesTransferred (fst (reconcile (sample_os tool_copies) rec_b (Summary_zero, sample_tree []))) = 1 \<and>
     FilesDeleted (fst (reconcile (sample_os tool_copies) rec_b (Summary_zero, sample_tree []))) = 0 \<and>
     FilesFailed (fst (reconcile (sample_os tool_copies) rec_b (Summary_zero, sample_tree []))) =
       [''/tmp/b.gz'']"
    unfolding Let_def by (simp add: Summary_zero_def b(2))
  ultimately show ?thesis using ev b(1) rm by simp
qed

section \<open>Claim C3: the empty-match outcome\<close>

lemma strings_Contains_iff:
  "strings_Contains s substr \<longleftrightarrow> (\<exists>pre post. s = pre @ substr @ post)"
proof (induction s)
  case Nil
  show ?case by auto
next
  case (Cons c cs)
  show ?case
  proof
    assume "strings_Contains (c # cs) substr"
    then consider "take (length substr) (c # cs) = substr" | "strings_Contains cs substr"
      by (auto split: if_splits)
    then show "\<exists>pre post. c # cs = pre @ substr @ post"
    proof cases
      case 1
      then have "c # cs = [] @ substr @ drop (length substr) (c # cs)"
        by (metis append_Nil append_take_drop_id)
      then show ?thesis by blast
    next
      case 2
      with Cons.IH obtain pre post where "cs = pre @ substr @ post" by blast
      then have "c # cs = (c # pre) @ substr @ post" by simp
      then show ?thesis by blast
    qed
  next
    assume "\<exists>pre post. c # cs = pre @ substr @ post"
    then obtain pre post where eq: "c # cs = pre @ substr @ post" by blast
    show "strings_Contains (c # cs) substr"
    proof (cases pre)
      case Nil
      with eq have "take (length substr) (c # cs) = substr" by simp
      then show ?thesis by simp
    next
      case (Cons d pre')
      with eq have "cs = pre' @ substr @ post" by simp
      with Cons.IH have "strings_Contains cs substr" by blast
      then show ?thesis by simp
    qed
  qed
qed

text \<open>
  Claim C3. Let a job id be generated and let \<open>runS5cmd\<close> return an error. If the whole
  content of the output file (which opens and reads to end-of-file) decodes into the
  error envelope and the decoded \<^verbatim>\<open>error\<close> string contains \<^verbatim>\<open>no match found for\<close>, then
  \<open>processFiles\<close> returns the all-zero summary and no error. The content is not empty:
  an empty file is no JSON document, and the code tests for it before decoding (line
  386).
\<close>

theorem no_match_is_empty_success:
  assumes "NewRandom sys w = (Some jobID, w0)"
    and "runS5cmd sys folderPrefix awsEndpointURL s3BucketPath awsCredsFile awsProfile
           (jobID @ ''.json'') pathSuffix s5cmdBinary envCreds w0 = (Some e, w1)"
    and "Open sys (jobID @ ''.json'') w1 = Opened data EOF"
    and "data \<noteq> []"
    and "Unmarshal_s5Error sys data = Some (pre @ ''no match found for'' @ post)"
  shows "fst (processFiles sys folderPrefix awsEndpointURL s3BucketPath awsCredsFile awsProfile
           pathSuffix s5cmdBinary envCreds w) = (Summary_zero, None)"
proof -
  have "strings_Contains (pre @ ''no match found for'' @ post) ''no match found for''"
    unfolding strings_Contains_iff by blast
  with assms show ?thesis
    by (simp add: processFiles_def checkForNoMatchError_def)
qed

text \<open>
  The theorem at the sample system whose tool exits with a failure after writing
  \<^verbatim>\<open>{"error":"no match found for pattern X"}\<close>.
\<close>

theorem no_match_is_empty_success_witness:
  "NewRandom (sample_os tool_no_match) (sample_tree []) = (Some ''job'', sample_tree []) \<and>
   fst (runS5cmd (sample_os tool_no_match) ''/tmp/'' [] ''s3://b/'' ''creds'' ''default''
          (''job'' @ ''.json'') ''/**/**/*.gz'' ''s5cmd'' False (sample_tree [])) = Some ErrExit \<and>
   Open (sample_os tool_no_match) (''job'' @ ''.json'')
     (snd (runS5cmd (sample_os tool_no_match) ''/tmp/'' [] ''s3://b/'' ''creds'' ''default''
          (''job'' @ ''.json'') ''/**/**/*.gz'' ''s5cmd'' False (sample_tree []))) =
     Opened (doc_no_match @ [newline]) EOF \<and>
   doc_no_match @ [newline] \<noteq> [] \<and>
   Unmarshal_s5Error (sample_os tool_no_match) (doc_no_match @ [newline]) =
     Some ([] @ ''no match found for'' @ '' pattern X'') \<and>
   fst (processFiles (sample_os tool_no_match) ''/tmp/'' [] ''s3://b/'' ''creds'' ''default''
          ''/**/**/*.gz'' ''s5cmd'' False (sample_tree [])) = (Summary_zero, None)"
proof -
  have h1: "NewRandom (sample_os tool_no_match) (sample_tree []) = (Some ''job'', sample_tree [])"
    by (simp add: sample_os_def tree_os_def)
  have f: "fst (runS5cmd (sample_os tool_no_match) ''/tmp/'' [] ''s3://b/'' ''creds''
          ''default'' (''job'' @ ''.json'') ''/**/**/*.gz'' ''s5cmd'' False (sample_tree [])) =
        Some ErrExit"
    by code_simp
  then have h2: "runS5cmd (sample_os tool_no_match) ''/tmp/'' [] ''s3://b/'' ''creds''
          ''default'' (''job'' @ ''.json'') ''/**/**/*.gz'' ''s5cmd'' False (sample_tree []) =
        (Some ErrExit,
         snd (runS5cmd (sample_os tool_no_match) ''/tmp/'' [] ''s3://b/'' ''creds''
          ''default'' (''job'' @ ''.json'') ''/**/**/*.gz'' ''s5cmd'' False (sample_tree [])))"
    by (simp add: prod_eq_iff)
  have h3: "Open (sample_os tool_no_match) (''job'' @ ''.json'')
     (snd (runS5cmd (sample_os tool_no_match) ''/tmp/'' [] ''s3://b/'' ''creds'' ''default''
          (''job'' @ ''.json'') ''/**/**/*.gz'' ''s5cmd'' False (sample_tree []))) =
     Opened (doc_no_match @ [newline]) EOF"
    by code_simp
  have h4: "doc_no_match @ [newline] \<noteq> []" by simp
  have h5: "Unmarshal_s5Error (sample_os tool_no_match) (doc_no_match @ [newline]) =
     Some ([] @ ''no match found for'' @ '' pattern X'')"
    by code_simp
  from no_match_is_empty_success [OF h1 h2 h3 h4 h5] h1 f h3 h4 h5 show ?thesis
    by blast
qed

section \<open>Claim C4: records that are not actionable\<close>

text \<open>
  Claim C4, as amended. The operation tag the code acts on is \<^verbatim>\<open>cp\<close> (line 426), not
  \<^verbatim>\<open>copy\<close>. A record whose operation is not \<^verbatim>\<open>cp\<close>, or whose success flag is false, or
  whose object type is not \<^verbatim>\<open>file\<close>, leaves every field of the summary, and the world,
  as they were.
\<close>

theorem unactionable_record_ignored:
  "Operation result \<noteq> ''cp'' \<or> \<not> Success result \<or> Type (Object result) \<noteq> ''file'' \<Longrightarrow>
   reconcile sys result (summary, w) = (summary, w)"
  by (rule reconcile_unactionable) (auto simp: actionable_def)

text \<open>The theorem at the first sample record with its success flag cleared.\<close>

theorem unactionable_record_ignored_witness:
  "\<not> Success (rec_a\<lparr>Success := False\<rparr>) \<and>
   reconcile (sample_os tool_copies) (rec_a\<lparr>Success := False\<rparr>)
       (Summary_zero, sample_tree []) =
     (Summary_zero, sample_tree [])"
  using unactionable_record_ignored
    [of "rec_a\<lparr>Success := False\<rparr>" "sample_os tool_copies" Summary_zero "sample_tree []"]
  by simp

text \<open>
  The claim as stated fails at the first sample record: its operation \<^verbatim>\<open>cp\<close> is not equal
  to \<^verbatim>\<open>copy\<close>, and processing it changes three fields of the summary.
\<close>

theorem copy_tag_counterexample:
  "Operation rec_a \<noteq> ''copy'' \<and>
   fst (reconcile (sample_os tool_copies) rec_a (Summary_zero, sample_tree [])) =
     \<lparr>FilesTransferred = 1, FilesDeleted = 1, TotalBytes = 1024, FilesFailed = []\<rparr> \<and>
   Summary_zero = \<lparr>FilesTransferred = 0, FilesDeleted = 0, TotalBytes = 0, FilesFailed = []\<rparr>"
  by code_simp

section \<open>Claim C5: the report at shutdown\<close>

lemma shutdown_quiet:
  assumes "\<not> (0 < sint (FilesTransferred (accumulatedSummary ls)) \<or> 0 < sint (runCounter ls))"
  shows "shutdown sys cfg (ls, w) = [Log_ShutdownSignalReceived, Log_ShutdownComplete]"
  using assms by (simp add: shutdown_def Let_def)

lemma shutdown_reports:
  assumes "0 < sint (FilesTransferred (accumulatedSummary ls)) \<or> 0 < sint (runCounter ls)"
  shows "shutdown sys cfg (ls, w) =
    [Log_ShutdownSignalReceived] @
    (if actualNetdataEnabled cfg then
       (if Dial sys (actualNetdataAddress cfg) w
        then [Send_ShutdownMetrics (accumulatedSummary ls) (runCounter ls), Log_FinalMetricsSent]
        else [Log_ErrorSendingFinalMetrics (ErrConnectNetdata (actualNetdataAddress cfg))])
     else []) @
    [Log_FinalSummary (FilesTransferred (accumulatedSummary ls))
       (FilesDeleted (accumulatedSummary ls)) (TotalBytes (accumulatedSummary ls))
       (len (FilesFailed (accumulatedSummary ls))) (runCounter ls),
     Log_ShutdownComplete]"
  using assms by (simp add: shutdown_def Let_def sendShutdownMetrics_def)

lemma main_loop_ticks_then_done:
  "fst (snd (main_loop sys cfg n (replicate k TickerFired @ CtxDone # bs) st)) = Exited 0"
  by (induction k arbitrary: st) (simp_all add: split_beta Let_def)

lemma runsPerLog_defined: "processInterval \<noteq> 0 \<Longrightarrow> runsPerLog processInterval \<noteq> None"
  by (simp add: runsPerLog_def go_div_def)

text \<open>
  Claim C5, as amended. When the loop takes the \<^verbatim>\<open>ctx.Done()\<close> branch, whatever the
  accumulated state, it writes the two shutdown log lines and the process ends with
  status 0; this also holds for \<open>main\<close> as a whole after any number of ticks, once the
  configuration is accepted and the interval is positive. The terminal report is guarded
  (lines 175 and 184): the final summary line is written if and only if the accumulated
  \<open>FilesTransferred\<close> is positive or the run counter of the current window is positive,
  and then it carries the accumulated values; the final metrics are sent if and only if,
  in addition, metrics are enabled and the connection succeeds. With an all-zero
  accumulator and a zero run counter nothing is reported.
\<close>

theorem shutdown_report_guarded:
  "main_loop sys cfg n (CtxDone # bs) (ls, w) = (shutdown sys cfg (ls, w), Exited 0, w) \<and>
   ((\<exists>a b c d e. Log_FinalSummary a b c d e \<in> set (shutdown sys cfg (ls, w))) \<longleftrightarrow>
      0 < sint (FilesTransferred (accumulatedSummary ls)) \<or> 0 < sint (runCounter ls)) \<and>
   ((\<exists>s r. Send_ShutdownMetrics s r \<in> set (shutdown sys cfg (ls, w))) \<longleftrightarrow>
      actualNetdataEnabled cfg \<and> Dial sys (actualNetdataAddress cfg) w \<and>
      (0 < sint (FilesTransferred (accumulatedSummary ls)) \<or> 0 < sint (runCounter ls))) \<and>
   (0 < sint (FilesTransferred (accumulatedSummary ls)) \<or> 0 < sint (runCounter ls) \<longrightarrow>
      Log_FinalSummary (FilesTransferred (accumulatedSummary ls))
        (FilesDeleted (accumulatedSummary ls)) (TotalBytes (accumulatedSummary ls))
        (len (FilesFailed (accumulatedSummary ls))) (runCounter ls)
      \<in> set (shutdown sys cfg (ls, w))) \<and>
   (actualS3BucketPath cfg \<noteq> [] \<and> (actualAwsCredsFile cfg \<noteq> [] \<or> hasAwsEnvCreds cfg) \<and>
    0 < sint (actualProcessInterval cfg) \<longrightarrow>
      fst (snd (main sys cfg (replicate k TickerFired @ CtxDone # bs) w)) = Exited 0)"
proof (intro conjI impI)
  show "main_loop sys cfg n (CtxDone # bs) (ls, w) = (shutdown sys cfg (ls, w), Exited 0, w)"
    by simp
next
  show "(\<exists>a b c d e. Log_FinalSummary a b c d e \<in> set (shutdown sys cfg (ls, w))) \<longleftrightarrow>
      0 < sint (FilesTransferred (accumulatedSummary ls)) \<or> 0 < sint (runCounter ls)"
    using shutdown_quiet [of ls sys cfg w] shutdown_reports [of ls sys cfg w]
    by (cases "0 < sint (FilesTransferred (accumulatedSummary ls)) \<or> 0 < sint (runCounter ls)")
      auto
next
  show "(\<exists>s r. Send_ShutdownMetrics s r \<in> set (shutdown sys cfg (ls, w))) \<longleftrightarrow>
      actualNetdataEnabled cfg \<and> Dial sys (actualNetdataAddress cfg) w \<and>
      (0 < sint (FilesTransferred (accumulatedSummary ls)) \<or> 0 < sint (runCounter ls))"
    using shutdown_quiet [of ls sys cfg w] shutdown_reports [of ls sys cfg w]
    by (cases "0 < sint (FilesTransferred (accumulatedSummary ls)) \<or> 0 < sint (runCounter ls)")
      auto
next
  assume "0 < sint (FilesTransferred (accumulatedSummary ls)) \<or> 0 < sint (runCounter ls)"
  from shutdown_reports [OF this, of sys cfg w]
  show "Log_FinalSummary (FilesTransferred (accumulatedSummary ls))
        (FilesDeleted (accumulatedSummary ls)) (TotalBytes (accumulatedSummary ls))
        (len (FilesFailed (accumulatedSummary ls))) (runCounter ls)
      \<in> set (shutdown sys cfg (ls, w))"
    by simp
next
  assume a: "actualS3BucketPath cfg \<noteq> [] \<and> (actualAwsCredsFile cfg \<noteq> [] \<or> hasAwsEnvCreds cfg) \<and>
    0 < sint (actualProcessInterval cfg)"
  then have "actualProcessInterval cfg \<noteq> 0" by auto
  from runsPerLog_defined [OF this] obtain m where "runsPerLog (actualProcessInterval cfg) = Some m"
    by auto
  with a show "fst (snd (main sys cfg (replicate k TickerFired @ CtxDone # bs) w)) = Exited 0"
    by (auto simp: main_def main_loop_ticks_then_done)
qed

text \<open>
  The theorem at a window with two completed runs that moved no file: the run counter is
  positive, so the final summary line is written; and \<open>main\<close> with the sample
  configuration ends with status 0 after two ticks and the shutdown branch.
\<close>

theorem shutdown_report_guarded_witness:
  "0 < sint (runCounter \<lparr>accumulatedSummary = Summary_zero, runCounter = 2\<rparr>) \<and>
   Log_FinalSummary 0 0 0 0 2 \<in>
     set (shutdown (sample_os tool_no_match) sample_Config
            (\<lparr>accumulatedSummary = Summary_zero, runCounter = 2\<rparr>, sample_tree [])) \<and>
   actualS3BucketPath sample_Config \<noteq> [] \<and>
   actualAwsCredsFile sample_Config \<noteq> [] \<and>
   0 < sint (actualProcessInterval sample_Config) \<and>
   fst (snd (main (sample_os tool_no_match) sample_Config
               (replicate 2 TickerFired @ CtxDone # []) (sample_tree []))) = Exited 0"
proof -
  have c: "0 < sint (runCounter \<lparr>accumulatedSummary = Summary_zero, runCounter = 2\<rparr>)"
    by simp
  have v: "actualS3BucketPath sample_Config \<noteq> []" "actualAwsCredsFile sample_Config \<noteq> []"
    "0 < sint (actualProcessInterval sample_Config)"
    by (simp_all add: sample_Config_def)
  note inst = shutdown_report_guarded [of "sample_os tool_no_match" sample_Config 60 "[]"
      "\<lparr>accumulatedSummary = Summary_zero, runCounter = 2\<rparr>" "sample_tree []" 2]
  from inst c have "Log_FinalSummary 0 0 0 0 2 \<in>
     set (shutdown (sample_os tool_no_match) sample_Config
            (\<lparr>accumulatedSummary = Summary_zero, runCounter = 2\<rparr>, sample_tree []))"
    by (simp add: Summary_zero_def len_def)
  moreover from inst v have "fst (snd (main (sample_os tool_no_match) sample_Config
               (replicate 2 TickerFired @ CtxDone # []) (sample_tree []))) = Exited 0"
    by blast
  ultimately show ?thesis using c v by blast
qed

text \<open>
  The claim as stated fails at the state the loop starts in and returns to after every
  periodic reset: with an all-zero accumulator and no completed run, and with metrics
  enabled, the shutdown branch writes its two log lines and nothing else, neither the
  final summary nor the final metrics, before the process ends with status 0.
\<close>

theorem silent_shutdown_counterexample:
  "accumulatedSummary LoopState_init = Summary_zero \<and>
   runCounter LoopState_init = 0 \<and>
   actualNetdataEnabled sample_Config \<and>
   shutdown (sample_os tool_copies) sample_Config (LoopState_init, sample_tree []) =
     [Log_ShutdownSignalReceived, Log_ShutdownComplete] \<and>
   fst (main (sample_os tool_copies) sample_Config [CtxDone] (sample_tree [])) =
     [Log_ShutdownSignalReceived, Log_ShutdownComplete] \<and>
   fst (snd (main (sample_os tool_copies) sample_Config [CtxDone] (sample_tree []))) = Exited 0"
  by code_simp

section \<open>Claim C6: the reporting window\<close>

subsection \<open>Signed 64-bit values that stay in range\<close>

lemma sint_word_of_int_64:
  assumes "- (2 ^ 63) \<le> k" "k < 2 ^ 63"
  shows "sint (word_of_int k :: go_int) = k"
  using assms by (simp add: signed_of_int signed_take_bit_int_eq_self)

lemma sint_succ:
  assumes "sint (x :: go_int) < 2 ^ 63 - 1"
  shows "sint (x + 1) = sint x + 1"
proof -
  have "x + 1 = word_of_int (sint x + 1)" by simp
  moreover have "- (2 ^ 63) \<le> sint x + 1"
    using sint_greater_eq [of x] by simp
  ultimately show ?thesis
    using sint_word_of_int_64 [of "sint x + 1"] assms by simp
qed

lemma sint_of_nat_64:
  assumes "j < 2 ^ 63"
  shows "sint (of_nat j :: go_int) = int j"
proof -
  have "int j < 2 ^ 63" using assms by (metis of_nat_less_iff of_nat_numeral of_nat_power)
  then show ?thesis
    using sint_word_of_int_64 [of "int j"] by simp
qed

lemma sint_loggingInterval: "sint loggingInterval = 60000000000"
  by (simp add: loggingInterval_def)

subsection \<open>The number of runs per window\<close>

lemma sdiv_window:
  fixes d :: int
  assumes "d \<noteq> 0"
  shows "(60000000000::int) sdiv d =
           (if 0 < d then 60000000000 div d else - (60000000000 div (- d)))"
    and "\<bar>(60000000000::int) sdiv d\<bar> \<le> 60000000000"
proof -
  show eq: "(60000000000::int) sdiv d =
      (if 0 < d then 60000000000 div d else - (60000000000 div (- d)))"
    using assms by (auto simp: signed_divide_int_def sgn_if abs_if)
  have "0 \<le> (60000000000::int) div \<bar>d\<bar>" "(60000000000::int) div \<bar>d\<bar> \<le> 60000000000"
    using assms int_div_le_self [of 60000000000 "\<bar>d\<bar>"]
    by (simp_all add: pos_imp_zdiv_nonneg_iff)
  then show "\<bar>(60000000000::int) sdiv d\<bar> \<le> 60000000000"
    unfolding eq using assms by (auto simp: abs_if)
qed

lemma runsPerLog_value:
  assumes "runsPerLog processInterval = Some n"
  shows "processInterval \<noteq> 0"
    and "sint n = max 1 (sint loggingInterval div sint processInterval)"
    and "1 \<le> sint n" and "sint n \<le> 60000000000"
proof -
  show nz: "processInterval \<noteq> 0"
    using assms by (auto simp: runsPerLog_def go_div_def)
  define d where "d = sint processInterval"
  define q where "q = (60000000000::int) sdiv d"
  have d: "d \<noteq> 0" using nz by (simp add: d_def signed_eq_0_iff)
  have qb: "\<bar>q\<bar> \<le> 60000000000" unfolding q_def by (rule sdiv_window(2) [OF d])
  have sq: "sint (word_of_int q :: go_int) = q"
    by (rule sint_word_of_int_64) (use qb in auto)
  have n: "n = (if q < 1 then 1 else word_of_int q)"
    using assms nz
    by (auto simp: runsPerLog_def go_div_def sint_loggingInterval d_def q_def
        sq [unfolded q_def d_def])
  then have sn: "sint n = max 1 q" using sq by (auto simp: max_def)
  have "max 1 q = max 1 (60000000000 div d)"
  proof (cases "0 < d")
    case True
    then show ?thesis using sdiv_window(1) [OF d] by (simp add: q_def)
  next
    case False
    then have neg: "d < 0" using d by simp
    then have "q \<le> 0"
      using sdiv_window(1) [OF d] by (simp add: q_def pos_imp_zdiv_nonneg_iff)
    moreover have "(60000000000::int) div d \<le> 0"
      using neg by (simp add: div_nonneg_neg_le0)
    ultimately show ?thesis by simp
  qed
  with sn show "sint n = max 1 (sint loggingInterval div sint processInterval)"
    by (simp add: d_def sint_loggingInterval)
  show "1 \<le> sint n" using sn by simp
  show "sint n \<le> 60000000000" using sn qb by auto
qed

subsection \<open>One tick\<close>

lemma tick_unfold:
  "tick sys cfg n (ls, w) =
     (let pf = processFiles sys (actualFolderPrefix cfg) (actualAwsEndpointURL cfg)
              (actualS3BucketPath cfg) (actualAwsCredsFile cfg) (actualAwsProfile cfg)
              (actualPathSuffix cfg) (actualS5cmdBinary cfg) (hasAwsEnvCreds cfg) w;
          summary = fst (fst pf);
          w1 = snd pf;
          out1 = (case snd (fst pf) of Some e \<Rightarrow> [Log_ErrorProcessingFiles e] | None \<Rightarrow> []);
          out2 = (if actualNetdataEnabled cfg then
                    (if Dial sys (actualNetdataAddress cfg) w1 then [Send_RunMetrics summary 1]
                     else [Log_ErrorSendingMetrics (ErrConnectNetdata (actualNetdataAddress cfg))])
                  else []);
          acc = accumulate (accumulatedSummary ls) summary;
          rc = runCounter ls + 1
      in if sint n \<le> sint rc then
           (out1 @ out2 @
              (if 0 < sint (FilesTransferred acc)
               then [Log_PeriodicSummary rc (FilesTransferred acc) (FilesDeleted acc)
                       (TotalBytes acc) (len (FilesFailed acc))]
               else []),
            \<lparr>accumulatedSummary = Summary_zero, runCounter = 0\<rparr>, w1)
         else (out1 @ out2, \<lparr>accumulatedSummary = acc, runCounter = rc\<rparr>, w1))"
  by (simp add: tick_def Let_def split_beta sendToNetdata_def)

lemma tick_state:
  "fst (snd (tick sys cfg n (ls, w))) =
     (if sint n \<le> sint (runCounter ls + 1) then LoopState_init
      else \<lparr>accumulatedSummary =
              accumulate (accumulatedSummary ls)
                (fst (fst (processFiles sys (actualFolderPrefix cfg) (actualAwsEndpointURL cfg)
                   (actualS3BucketPath cfg) (actualAwsCredsFile cfg) (actualAwsProfile cfg)
                   (actualPathSuffix cfg) (actualS5cmdBinary cfg) (hasAwsEnvCreds cfg) w))),
            runCounter = runCounter ls + 1\<rparr>)"
  by (simp add: tick_unfold Let_def LoopState_init_def)

lemma tick_report:
  "(\<exists>a b c d e. Log_PeriodicSummary a b c d e \<in> set (fst (tick sys cfg n (ls, w)))) \<longleftrightarrow>
     sint n \<le> sint (runCounter ls + 1) \<and>
     0 < sint (FilesTransferred (accumulate (accumulatedSummary ls)
           (fst (fst (processFiles sys (actualFolderPrefix cfg) (actualAwsEndpointURL cfg)
              (actualS3BucketPath cfg) (actualAwsCredsFile cfg) (actualAwsProfile cfg)
              (actualPathSuffix cfg) (actualS5cmdBinary cfg) (hasAwsEnvCreds cfg) w)))))"
  by (auto simp: tick_unfold Let_def split: option.splits if_splits)

subsection \<open>Any number of ticks\<close>

lemma main_loop_tick:
  "snd (main_loop sys cfg n (TickerFired # bs) (ls, w)) =
     snd (main_loop sys cfg n bs (snd (tick sys cfg n (ls, w))))"
  by (simp add: split_beta Let_def)

lemma ticks_counter:
  assumes n: "1 \<le> sint n" "sint n \<le> 60000000000"
    and j: "runCounter ls = of_nat j" "j < nat (sint n)"
      "j = 0 \<longrightarrow> accumulatedSummary ls = Summary_zero"
  shows "\<exists>ls' w'. snd (main_loop sys cfg n (replicate k TickerFired) (ls, w)) = (Running ls', w') \<and>
           runCounter ls' = of_nat ((j + k) mod nat (sint n)) \<and>
           ((j + k) mod nat (sint n) = 0 \<longrightarrow> accumulatedSummary ls' = Summary_zero)"
  using j
proof (induction k arbitrary: ls w j)
  case 0
  then show ?case by simp
next
  case (Suc k)
  define N where "N = nat (sint n)"
  have N: "int N = sint n" "0 < N" using n by (simp_all add: N_def)
  have jN: "j < N" using Suc.prems(2) by (simp add: N_def)
  have "int j < 2 ^ 63" using jN N(1) n(2) by simp
  then have "j < 2 ^ 63" by (metis of_nat_less_iff of_nat_numeral of_nat_power)
  then have sj: "sint (runCounter ls) = int j"
    by (simp add: Suc.prems(1) sint_of_nat_64)
  have sj1: "sint (runCounter ls + 1) = int j + 1"
    using sint_succ [of "runCounter ls"] sj jN N(1) n(2) by simp
  obtain ls1 w1 where t: "snd (tick sys cfg n (ls, w)) = (ls1, w1)"
    by (cases "snd (tick sys cfg n (ls, w))")
  then have ls1: "ls1 = fst (snd (tick sys cfg n (ls, w)))" by simp
  have step: "snd (main_loop sys cfg n (replicate (Suc k) TickerFired) (ls, w)) =
      snd (main_loop sys cfg n (replicate k TickerFired) (ls1, w1))"
    by (simp only: replicate_Suc main_loop_tick t)
  show ?case
  proof (cases "Suc j = N")
    case True
    then have "sint n \<le> sint (runCounter ls + 1)" using sj1 N(1) by simp
    then have init: "ls1 = LoopState_init" by (simp add: ls1 tick_state)
    have "runCounter ls1 = of_nat 0" "0 < nat (sint n)"
      "0 = 0 \<longrightarrow> accumulatedSummary ls1 = Summary_zero"
      using N by (simp_all add: init LoopState_init_def N_def)
    from Suc.IH [OF this, of w1] have
      "\<exists>ls' w'. snd (main_loop sys cfg n (replicate k TickerFired) (ls1, w1)) = (Running ls', w') \<and>
           runCounter ls' = of_nat ((0 + k) mod N) \<and>
           ((0 + k) mod N = 0 \<longrightarrow> accumulatedSummary ls' = Summary_zero)"
      by (simp add: N_def)
    moreover have "(j + Suc k) mod N = (0 + k) mod N"
      using True by (metis add.left_neutral add_Suc add_Suc_right mod_add_self1)
    ultimately show ?thesis unfolding step N_def [symmetric] by simp
  next
    case False
    then have lt: "Suc j < N" using jN by simp
    then have "\<not> sint n \<le> sint (runCounter ls + 1)" using sj1 N(1) by simp
    then have rc1: "runCounter ls1 = of_nat (Suc j)"
      by (simp add: ls1 tick_state Suc.prems(1))
    have "Suc j < nat (sint n)" "Suc j = 0 \<longrightarrow> accumulatedSummary ls1 = Summary_zero"
      using lt by (simp_all add: N_def)
    from Suc.IH [OF rc1 this, of w1] show ?thesis unfolding step by simp
  qed
qed

text \<open>
  Claim C6, as amended. The reporting window is the constant of one minute. For every
  tick interval for which line 157 yields a value (every interval but zero, where the
  division panics), the number of runs per window is \<open>N = max 1 \<lfloor>window / interval\<rfloor>\<close>.
  After any \<open>k\<close> ticks from the start the loop is still running with its tick counter at
  \<open>k mod N\<close>, and whenever that is zero the accumulated summary is the zero summary: the
  window closes, and counter and accumulator are reset, exactly at every \<open>N\<close>-th tick. The
  next tick, number \<open>k + 1\<close>, writes the periodic report if and only if it is an \<open>N\<close>-th
  tick and the accumulated \<open>FilesTransferred\<close>, this run included, is positive (the guard
  of line 229); the reset happens with or without a report, and a tick that is not an
  \<open>N\<close>-th one only folds its run into the accumulator and adds one to the counter.
\<close>

theorem periodic_window:
  assumes "runsPerLog (actualProcessInterval cfg) = Some n"
  shows
   "sint n = max 1 (sint loggingInterval div sint (actualProcessInterval cfg)) \<and>
    (\<exists>ls' w'.
       snd (main_loop sys cfg n (replicate k TickerFired) (LoopState_init, w)) =
         (Running ls', w') \<and>
       runCounter ls' = of_nat (k mod nat (sint n)) \<and>
       (k mod nat (sint n) = 0 \<longrightarrow> accumulatedSummary ls' = Summary_zero) \<and>
       ((\<exists>a b c d e. Log_PeriodicSummary a b c d e \<in> set (fst (tick sys cfg n (ls', w')))) \<longleftrightarrow>
          Suc k mod nat (sint n) = 0 \<and>
          0 < sint (FilesTransferred (accumulate (accumulatedSummary ls')
                (fst (fst (processFiles sys (actualFolderPrefix cfg) (actualAwsEndpointURL cfg)
                   (actualS3BucketPath cfg) (actualAwsCredsFile cfg) (actualAwsProfile cfg)
                   (actualPathSuffix cfg) (actualS5cmdBinary cfg) (hasAwsEnvCreds cfg) w')))))) \<and>
       fst (snd (tick sys cfg n (ls', w'))) =
         (if Suc k mod nat (sint n) = 0 then LoopState_init
          else \<lparr>accumulatedSummary =
                  accumulate (accumulatedSummary ls')
                    (fst (fst (processFiles sys (actualFolderPrefix cfg)
                       (actualAwsEndpointURL cfg) (actualS3BucketPath cfg)
                       (actualAwsCredsFile cfg) (actualAwsProfile cfg) (actualPathSuffix cfg)
                       (actualS5cmdBinary cfg) (hasAwsEnvCreds cfg) w'))),
                runCounter = runCounter ls' + 1\<rparr>))"
proof
  note v = runsPerLog_value [OF assms]
  show "sint n = max 1 (sint loggingInterval div sint (actualProcessInterval cfg))"
    by (rule v(2))
  define N where "N = nat (sint n)"
  have N: "int N = sint n" "0 < N" using v(3) by (simp_all add: N_def)
  have "runCounter LoopState_init = of_nat 0" "0 < nat (sint n)"
    "0 = 0 \<longrightarrow> accumulatedSummary LoopState_init = Summary_zero"
    using N by (simp_all add: LoopState_init_def N_def)
  from ticks_counter [OF v(3) v(4) this, of sys cfg k w]
  obtain ls' w' where run:
    "snd (main_loop sys cfg n (replicate k TickerFired) (LoopState_init, w)) = (Running ls', w')"
    "runCounter ls' = of_nat (k mod N)"
    "k mod N = 0 \<longrightarrow> accumulatedSummary ls' = Summary_zero"
    by (auto simp: N_def)
  have jN: "k mod N < N" using N(2) by simp
  then have "int (k mod N) < 2 ^ 63" using N(1) v(4) by simp
  then have "k mod N < 2 ^ 63" by (metis of_nat_less_iff of_nat_numeral of_nat_power)
  then have sj: "sint (runCounter ls') = int (k mod N)"
    by (simp add: run(2) sint_of_nat_64)
  have sj1: "sint (runCounter ls' + 1) = int (k mod N) + 1"
    using sint_succ [of "runCounter ls'"] sj jN N(1) v(4) by simp
  have "sint n \<le> sint (runCounter ls' + 1) \<longleftrightarrow> Suc (k mod N) = N"
    using sj1 N(1) jN by auto
  also have "\<dots> \<longleftrightarrow> Suc k mod N = 0"
    using N(2) by (simp add: mod_Suc)
  finally have closes: "sint n \<le> sint (runCounter ls' + 1) \<longleftrightarrow> Suc k mod N = 0" .
  have rep: "(\<exists>a b c d e. Log_PeriodicSummary a b c d e \<in> set (fst (tick sys cfg n (ls', w')))) \<longleftrightarrow>
          Suc k mod N = 0 \<and>
          0 < sint (FilesTransferred (accumulate (accumulatedSummary ls')
                (fst (fst (processFiles sys (actualFolderPrefix cfg) (actualAwsEndpointURL cfg)
                   (actualS3BucketPath cfg) (actualAwsCredsFile cfg) (actualAwsProfile cfg)
                   (actualPathSuffix cfg) (actualS5cmdBinary cfg) (hasAwsEnvCreds cfg) w')))))"
    by (simp only: tick_report closes)
  have nxt: "fst (snd (tick sys cfg n (ls', w'))) =
         (if Suc k mod N = 0 then LoopState_init
          else \<lparr>accumulatedSummary =
                  accumulate (accumulatedSummary ls')
                    (fst (fst (processFiles sys (actualFolderPrefix cfg)
                       (actualAwsEndpointURL cfg) (actualS3BucketPath cfg)
                       (actualAwsCredsFile cfg) (actualAwsProfile cfg) (actualPathSuffix cfg)
                       (actualS5cmdBinary cfg) (hasAwsEnvCreds cfg) w'))),
                runCounter = runCounter ls' + 1\<rparr>)"
    by (simp only: tick_state closes)
  show "\<exists>ls' w'.
       snd (main_loop sys cfg n (replicate k TickerFired) (LoopState_init, w)) =
         (Running ls', w') \<and>
       runCounter ls' = of_nat (k mod nat (sint n)) \<and>
       (k mod nat (sint n) = 0 \<longrightarrow> accumulatedSummary ls' = Summary_zero) \<and>
       ((\<exists>a b c d e. Log_PeriodicSummary a b c d e \<in> set (fst (tick sys cfg n (ls', w')))) \<longleftrightarrow>
          Suc k mod nat (sint n) = 0 \<and>
          0 < sint (FilesTransferred (accumulate (accumulatedSummary ls')
                (fst (fst (processFiles sys (actualFolderPrefix cfg) (actualAwsEndpointURL cfg)
                   (actualS3BucketPath cfg) (actualAwsCredsFile cfg) (actualAwsProfile cfg)
                   (actualPathSuffix cfg) (actualS5cmdBinary cfg) (hasAwsEnvCreds cfg) w')))))) \<and>
       fst (snd (tick sys cfg n (ls', w'))) =
         (if Suc k mod nat (sint n) = 0 then LoopState_init
          else \<lparr>accumulatedSummary =
                  accumulate (accumulatedSummary ls')
                    (fst (fst (processFiles sys (actualFolderPrefix cfg)
                       (actualAwsEndpointURL cfg) (actualS3BucketPath cfg)
                       (actualAwsCredsFile cfg) (actualAwsProfile cfg) (actualPathSuffix cfg)
                       (actualS5cmdBinary cfg) (hasAwsEnvCreds cfg) w'))),
                runCounter = runCounter ls' + 1\<rparr>)"
    using run rep nxt unfolding N_def
    by (intro exI [of _ ls'] exI [of _ w'] conjI) assumption+
qed

text \<open>
  The theorem at an interval of thirty seconds, two runs per window, after one tick of the
  sample system that copies both files; the values it speaks of, evaluated: after the
  first tick the counter is 1 and the accumulator holds that run, the second tick writes
  the periodic report and resets both.
\<close>

theorem periodic_window_witness:
  "runsPerLog (actualProcessInterval (sample_Config\<lparr>actualProcessInterval := 30000000000\<rparr>)) =
     Some 2 \<and>
   sint (2 :: go_int) =
     max 1 (sint loggingInterval div
            sint (actualProcessInterval (sample_Config\<lparr>actualProcessInterval := 30000000000\<rparr>))) \<and>
   (\<exists>ls' w'.
       snd (main_loop (sample_os tool_copies)
              (sample_Config\<lparr>actualProcessInterval := 30000000000\<rparr>) 2
              (replicate 1 TickerFired) (LoopState_init, sample_tree [])) = (Running ls', w') \<and>
       runCounter ls' = of_nat (1 mod nat (sint (2 :: go_int))) \<and>
       (1 mod nat (sint (2 :: go_int)) = 0 \<longrightarrow> accumulatedSummary ls' = Summary_zero) \<and>
       ((\<exists>a b c d e. Log_PeriodicSummary a b c d e \<in>
          set (fst (tick (sample_os tool_copies)
                 (sample_Config\<lparr>actualProcessInterval := 30000000000\<rparr>) 2 (ls', w')))) \<longleftrightarrow>
        Suc 1 mod nat (sint (2 :: go_int)) = 0 \<and>
        0 < sint (FilesTransferred (accumulate (accumulatedSummary ls')
              (fst (fst (processFiles (sample_os tool_copies)
                 (actualFolderPrefix (sample_Config\<lparr>actualProcessInterval := 30000000000\<rparr>))
                 (actualAwsEndpointURL (sample_Config\<lparr>actualProcessInterval := 30000000000\<rparr>))
                 (actualS3BucketPath (sample_Config\<lparr>actualProcessInterval := 30000000000\<rparr>))
                 (actualAwsCredsFile (sample_Config\<lparr>actualProcessInterval := 30000000000\<rparr>))
                 (actualAwsProfile (sample_Config\<lparr>actualProcessInterval := 30000000000\<rparr>))
                 (actualPathSuffix (sample_Config\<lparr>actualProcessInterval := 30000000000\<rparr>))
                 (actualS5cmdBinary (sample_Config\<lparr>actualProcessInterval := 30000000000\<rparr>))
                 (hasAwsEnvCreds (sample_Config\<lparr>actualProcessInterval := 30000000000\<rparr>))
                 w')))))) \<and>
       fst (snd (tick (sample_os tool_copies)
                 (sample_Config\<lparr>actualProcessInterval := 30000000000\<rparr>) 2 (ls', w'))) =
         (if Suc 1 mod nat (sint (2 :: go_int)) = 0 then LoopState_init
          else \<lparr>accumulatedSummary =
                  accumulate (accumulatedSummary ls')
                    (fst (fst (processFiles (sample_os tool_copies)
                 (actualFolderPrefix (sample_Config\<lparr>actualProcessInterval := 30000000000\<rparr>))
                 (actualAwsEndpointURL (sample_Config\<lparr>actualProcessInterval := 30000000000\<rparr>))
                 (actualS3BucketPath (sample_Config\<lparr>actualProcessInterval := 30000000000\<rparr>))
                 (actualAwsCredsFile (sample_Config\<lparr>actualProcessInterval := 30000000000\<rparr>))
                 (actualAwsProfile (sample_Config\<lparr>actualProcessInterval := 30000000000\<rparr>))
                 (actualPathSuffix (sample_Config\<lparr>actualProcessInterval := 30000000000\<rparr>))
                 (actualS5cmdBinary (sample_Config\<lparr>actualProcessInterval := 30000000000\<rparr>))
                 (hasAwsEnvCreds (sample_Config\<lparr>actualProcessInterval := 30000000000\<rparr>))
                 w'))),
                runCounter = runCounter ls' + 1\<rparr>)) \<and>
   fst (snd (main_loop (sample_os tool_copies)
          (sample_Config\<lparr>actualProcessInterval := 30000000000\<rparr>) 2
          [TickerFired] (LoopState_init, sample_tree []))) =
     Running \<lparr>accumulatedSummary =
                \<lparr>FilesTransferred = 2, FilesDeleted = 1, TotalBytes = 3072,
                   FilesFailed = [''/tmp/b.gz'']\<rparr>,
              runCounter = 1\<rparr> \<and>
   fst (main_loop (sample_os tool_copies)
          (sample_Config\<lparr>actualProcessInterval := 30000000000\<rparr>) 2
          [TickerFired, TickerFired] (LoopState_init, sample_tree [])) =
     [Send_RunMetrics \<lparr>FilesTransferred = 2, FilesDeleted = 1, TotalBytes = 3072,
                         FilesFailed = [''/tmp/b.gz'']\<rparr> 1,
      Send_RunMetrics \<lparr>FilesTransferred = 2, FilesDeleted = 0, TotalBytes = 3072,
                         FilesFailed = [''/tmp/a.gz'', ''/tmp/b.gz'']\<rparr> 1,
      Log_PeriodicSummary 2 4 1 6144 3] \<and>
   fst (snd (main_loop (sample_os tool_copies)
          (sample_Config\<lparr>actualProcessInterval := 30000000000\<rparr>) 2
          [TickerFired, TickerFired] (LoopState_init, sample_tree []))) = Running LoopState_init"
proof -
  have h: "runsPerLog (actualProcessInterval
      (sample_Config\<lparr>actualProcessInterval := 30000000000\<rparr>)) = Some 2"
    by code_simp
  have e1: "fst (snd (main_loop (sample_os tool_copies)
          (sample_Config\<lparr>actualProcessInterval := 30000000000\<rparr>) 2
          [TickerFired] (LoopState_init, sample_tree []))) =
     Running \<lparr>accumulatedSummary =
                \<lparr>FilesTransferred = 2, FilesDeleted = 1, TotalBytes = 3072,
                   FilesFailed = [''/tmp/b.gz'']\<rparr>,
              runCounter = 1\<rparr>"
    by code_simp
  have e2: "fst (main_loop (sample_os tool_copies)
          (sample_Config\<lparr>actualProcessInterval := 30000000000\<rparr>) 2
          [TickerFired, TickerFired] (LoopState_init, sample_tree [])) =
     [Send_RunMetrics \<lparr>FilesTransferred = 2, FilesDeleted = 1, TotalBytes = 3072,
                         FilesFailed = [''/tmp/b.gz'']\<rparr> 1,
      Send_RunMetrics \<lparr>FilesTransferred = 2, FilesDeleted = 0, TotalBytes = 3072,
                         FilesFailed = [''/tmp/a.gz'', ''/tmp/b.gz'']\<rparr> 1,
      Log_PeriodicSummary 2 4 1 6144 3]"
    by code_simp
  have e3: "fst (snd (main_loop (sample_os tool_copies)
          (sample_Config\<lparr>actualProcessInterval := 30000000000\<rparr>) 2
          [TickerFired, TickerFired] (LoopState_init, sample_tree []))) = Running LoopState_init"
    by code_simp
  note inst = periodic_window [OF h, of "sample_os tool_copies" 1 "sample_tree []"]
  show ?thesis
    by (rule conjI [OF h conjI [OF conjunct1 [OF inst]
          conjI [OF conjunct2 [OF inst] conjI [OF e1 conjI [OF e2 e3]]]]])
qed

text \<open>
  The claim as stated fails at an interval of one minute, where every tick closes a
  window: a tick in which the tool matches nothing sends the run's metrics and resets the
  state, and writes no periodic report.
\<close>

theorem empty_window_counterexample:
  "runsPerLog (actualProcessInterval (sample_Config\<lparr>actualProcessInterval := 60000000000\<rparr>)) =
     Some 1 \<and>
   fst (tick (sample_os tool_no_match) (sample_Config\<lparr>actualProcessInterval := 60000000000\<rparr>) 1
          (LoopState_init, sample_tree [])) = [Send_RunMetrics Summary_zero 1] \<and>
   fst (snd (tick (sample_os tool_no_match)
          (sample_Config\<lparr>actualProcessInterval := 60000000000\<rparr>) 1
          (LoopState_init, sample_tree []))) = LoopState_init"
  by code_simp

section \<open>Claim C7: the source path handed to the copy tool\<close>

subsection \<open>\<open>Clean\<close> leaves no doubled separator\<close>

lemma doubled_iff: "doubled s \<longleftrightarrow> (\<exists>ps ss. s = ps @ [Separator, Separator] @ ss)"
proof
  assume "doubled s"
  then obtain i where i: "Suc i < length s" "s ! i = Separator" "s ! Suc i = Separator"
    by (auto simp: doubled_def)
  then have "s = take i s @ [Separator, Separator] @ drop (Suc (Suc i)) s"
    by (metis Cons_nth_drop_Suc Suc_lessD append_Cons append_Nil append_take_drop_id)
  then show "\<exists>ps ss. s = ps @ [Separator, Separator] @ ss" by blast
next
  assume "\<exists>ps ss. s = ps @ [Separator, Separator] @ ss"
  then obtain ps ss where s: "s = ps @ [Separator, Separator] @ ss" by blast
  have "Suc (length ps) < length s" "s ! length ps = Separator" "s ! Suc (length ps) = Separator"
    by (simp_all add: s nth_append)
  then show "doubled s" unfolding doubled_def by blast
qed

lemma doubled_append:
  assumes "\<not> doubled xs" "\<not> doubled ys" "xs = [] \<or> ys = [] \<or> last xs \<noteq> Separator \<or> hd ys \<noteq> Separator"
  shows "\<not> doubled (xs @ ys)"
proof
  assume "doubled (xs @ ys)"
  then obtain i where i: "Suc i < length xs + length ys" "(xs @ ys) ! i = Separator"
    "(xs @ ys) ! Suc i = Separator"
    by (auto simp: doubled_def)
  consider "Suc i < length xs" | "Suc i = length xs" | "length xs \<le> i" by linarith
  then show False
  proof cases
    case 1
    with i assms(1) show False by (auto simp: doubled_def nth_append)
  next
    case 2
    then have "xs \<noteq> []" "ys \<noteq> []" using i(1) by auto
    moreover have "i = length xs - 1" "i < length xs" using 2 by simp_all
    then have "last xs = Separator" using i(2) \<open>xs \<noteq> []\<close>
      by (simp add: nth_append last_conv_nth)
    moreover have "hd ys = Separator" using i(3) 2 \<open>ys \<noteq> []\<close>
      by (simp add: nth_append hd_conv_nth)
    ultimately show False using assms(3) by simp
  next
    case 3
    then have "Suc (i - length xs) < length ys" "ys ! (i - length xs) = Separator"
      "ys ! Suc (i - length xs) = Separator"
      using i by (auto simp: nth_append Suc_diff_le)
    with assms(2) show False unfolding doubled_def by blast
  qed
qed

lemma doubled_take: "\<not> doubled xs \<Longrightarrow> \<not> doubled (take n xs)"
  by (auto simp: doubled_def)

lemma doubled_no_sep: "Separator \<notin> set xs \<Longrightarrow> \<not> doubled xs"
  by (auto simp: doubled_def) (metis Suc_lessD nth_mem)

lemma backtrack_bounds:
  "dotdot \<le> w \<Longrightarrow> dotdot \<le> backtrack out dotdot w \<and> backtrack out dotdot w \<le> w \<and>
     (backtrack out dotdot w = dotdot \<or> out ! backtrack out dotdot w = Separator)"
  by (induction w) auto

lemma Clean_inv_backtrack:
  assumes inv: "Clean_inv rooted out dotdot" and lt: "dotdot < length out"
  shows "Clean_inv rooted (take (backtrack out dotdot (length out - 1)) out) dotdot"
proof -
  define w where "w = backtrack out dotdot (length out - 1)"
  have b: "dotdot \<le> w" "w \<le> length out - 1" "w = dotdot \<or> out ! w = Separator"
    using backtrack_bounds [of dotdot "length out - 1" out] lt by (auto simp: w_def)
  have wl: "w < length out" using b(2) lt by linarith
  have nd: "\<not> doubled (take w out)" using inv by (simp add: Clean_inv_def doubled_take)
  have lastw: "rooted \<and> take w out = [Separator]"
    if ne: "take w out \<noteq> []" and l: "last (take w out) = Separator"
  proof -
    from ne have w0: "0 < w" by (cases w) auto
    have "last (take w out) = take w out ! (w - 1)"
      using ne wl by (simp add: last_conv_nth min_def)
    also have "\<dots> = out ! (w - 1)" using w0 by simp
    finally have prev: "out ! (w - 1) = Separator" using l by simp
    show ?thesis
    proof (cases "w = dotdot")
      case False
      with b(3) have "out ! w = Separator" by simp
      with prev w0 wl have "doubled out"
        unfolding doubled_def by (intro exI [of _ "w - 1"]) simp
      with inv show ?thesis by (simp add: Clean_inv_def)
    next
      case True
      show ?thesis
      proof (cases rooted)
        case True
        with inv have "out \<noteq> []" "hd out = Separator" "dotdot = 1" by (simp_all add: Clean_inv_def)
        with \<open>w = dotdot\<close> True show ?thesis by (cases out) simp_all
      next
        case False
        with inv w0 \<open>w = dotdot\<close> prev show ?thesis by (simp add: Clean_inv_def)
      qed
    qed
  qed
  have r: "take w out \<noteq> [] \<and> hd (take w out) = Separator \<and> dotdot = 1" if rooted
  proof -
    from that inv have "out \<noteq> []" "hd out = Separator" "dotdot = 1" by (simp_all add: Clean_inv_def)
    with b(1) show ?thesis by (cases out; cases w) simp_all
  qed
  have nr: "dotdot \<le> length (take w out) \<and> (0 < dotdot \<longrightarrow> take w out ! (dotdot - 1) \<noteq> Separator)"
    if "\<not> rooted"
    using that inv b(1) wl by (auto simp: Clean_inv_def)
  show ?thesis
    unfolding w_def [symmetric] Clean_inv_def using nd lastw r nr by blast
qed

lemma Clean_inv_dotdot:
  assumes inv: "Clean_inv False out dotdot" and ge: "\<not> dotdot < length out"
  shows "Clean_inv False ((if length out > 0 then out @ [Separator] else out) @ [dot, dot])
           (length ((if length out > 0 then out @ [Separator] else out) @ [dot, dot]))"
proof -
  define pre where "pre = (if length out > 0 then out @ [Separator] else out)"
  have ds: "dot \<noteq> Separator" by (simp add: dot_def Separator_def)
  have dd: "\<not> doubled [dot, dot]" by (rule doubled_no_sep) (simp add: ds [symmetric])
  have nd: "\<not> doubled out" using inv by (simp add: Clean_inv_def)
  have l: "last out \<noteq> Separator" if "out \<noteq> []"
    using inv that by (simp add: Clean_inv_def)
  have one: "\<not> doubled [Separator]" by (simp add: doubled_def)
  have pre: "\<not> doubled pre"
  proof (cases "out = []")
    case True
    then show ?thesis using nd by (simp add: pre_def)
  next
    case False
    have "\<not> doubled (out @ [Separator])"
      by (rule doubled_append [OF nd one]) (simp add: l [OF False])
    with False show ?thesis by (simp add: pre_def)
  qed
  have res: "\<not> doubled (pre @ [dot, dot])"
    by (rule doubled_append [OF pre dd]) (simp add: ds)
  have "(pre @ [dot, dot]) ! (length (pre @ [dot, dot]) - 1) = dot"
    by (simp add: nth_append)
  with res ds show ?thesis
    unfolding pre_def [symmetric] Clean_inv_def by simp
qed

lemma Clean_inv_element:
  assumes inv: "Clean_inv rooted out dotdot" and el: "Separator \<notin> set el" "el \<noteq> []"
  shows "Clean_inv rooted
           ((if rooted \<and> length out \<noteq> 1 \<or> \<not> rooted \<and> length out \<noteq> 0
             then out @ [Separator] else out) @ el) dotdot"
proof -
  define pre where "pre = (if rooted \<and> length out \<noteq> 1 \<or> \<not> rooted \<and> length out \<noteq> 0
             then out @ [Separator] else out)"
  have nd: "\<not> doubled out" using inv by (simp add: Clean_inv_def)
  have l: "rooted \<and> out = [Separator]" if "out \<noteq> []" "last out = Separator"
    using inv that by (simp add: Clean_inv_def)
  have one: "\<not> doubled [Separator]" by (simp add: doubled_def)
  have pre_alt: "pre = out \<or> pre = out @ [Separator]" by (simp add: pre_def)
  have pre: "\<not> doubled pre"
  proof (cases "rooted \<and> length out \<noteq> 1 \<or> \<not> rooted \<and> length out \<noteq> 0")
    case True
    then have "out = [] \<or> last out \<noteq> Separator" using l by auto
    then have "\<not> doubled (out @ [Separator])"
      by (intro doubled_append [OF nd one]) simp
    moreover from True have "pre = out @ [Separator]" unfolding pre_def by (rule if_P)
    ultimately show ?thesis by simp
  next
    case False
    then have "pre = out" unfolding pre_def by (rule if_not_P)
    with nd show ?thesis by simp
  qed
  have "hd el \<in> set el" "last el \<in> set el"
    using el(2) by simp_all
  with el(1) have hd_el: "hd el \<noteq> Separator" and last_el: "last el \<noteq> Separator"
    by auto
  have nel: "\<not> doubled el" using el(1) by (rule doubled_no_sep)
  have c1: "\<not> doubled (pre @ el)"
    by (rule doubled_append [OF pre nel]) (simp add: hd_el)
  have c2: "last (pre @ el) \<noteq> Separator" using el last_el by simp
  have c3: "pre @ el \<noteq> []" using el by simp
  have c4: "hd (pre @ el) = Separator \<and> dotdot = 1" if rooted
  proof -
    from that inv have o: "out \<noteq> []" "hd out = Separator" "dotdot = 1"
      by (simp_all add: Clean_inv_def)
    from pre_alt o show ?thesis by (cases out) auto
  qed
  have c5: "dotdot \<le> length (pre @ el) \<and> (0 < dotdot \<longrightarrow> (pre @ el) ! (dotdot - 1) \<noteq> Separator)"
    if "\<not> rooted"
  proof -
    from that inv have o: "dotdot \<le> length out" "0 < dotdot \<longrightarrow> out ! (dotdot - 1) \<noteq> Separator"
      by (simp_all add: Clean_inv_def)
    have "(pre @ el) ! (dotdot - 1) = out ! (dotdot - 1)" if "0 < dotdot"
      using pre_alt o(1) that by (auto simp: nth_append)
    moreover have "length out \<le> length (pre @ el)" using pre_alt by auto
    ultimately show ?thesis using o by auto
  qed
  show ?thesis
    unfolding pre_def [symmetric] Clean_inv_def using c1 c2 c3 c4 c5 by simp
qed

lemma Clean_loop_inv:
  "Clean_inv rooted out dotdot \<Longrightarrow> \<exists>dd. Clean_inv rooted (Clean_loop rooted path out dotdot) dd"
proof (induction path arbitrary: out dotdot rule: length_induct)
  case (1 path)
  note inv = "1.prems"
  show ?case
  proof (cases path)
    case Nil
    with inv show ?thesis by auto
  next
    case (Cons c cs)
    have rec: "\<exists>dd. Clean_inv rooted (Clean_loop rooted p out' d) dd"
      if "length p \<le> length cs" "Clean_inv rooted out' d" for p out' d
      using "1.IH" that Cons by simp
    have f1: "\<exists>dd. Clean_inv rooted (Clean_loop rooted cs out dotdot) dd"
      and f4: "\<exists>dd. Clean_inv rooted (Clean_loop rooted (tl cs) out dotdot) dd"
      using rec inv by simp_all
    have f2: "\<exists>dd. Clean_inv rooted (Clean_loop rooted (tl cs)
                 (take (backtrack out dotdot (length out - 1)) out) dotdot) dd"
      if "dotdot < length out"
      using rec Clean_inv_backtrack [OF inv that] by simp
    have f3: "\<exists>dd. Clean_inv rooted (Clean_loop rooted (tl cs)
                 ((if length out > 0 then out @ [Separator] else out) @ [dot, dot])
                 (length ((if length out > 0 then out @ [Separator] else out) @ [dot, dot]))) dd"
      if "\<not> dotdot < length out" "\<not> rooted"
      using rec [of "tl cs"] Clean_inv_dotdot [of out dotdot] inv that by simp
    have f5: "\<exists>dd. Clean_inv rooted (Clean_loop rooted (dropWhile (\<lambda>x. x \<noteq> Separator) cs)
                 ((if rooted \<and> length out \<noteq> 1 \<or> \<not> rooted \<and> length out \<noteq> 0
                   then out @ [Separator] else out) @ c # takeWhile (\<lambda>x. x \<noteq> Separator) cs)
                 dotdot) dd"
      if "c \<noteq> Separator"
    proof -
      have "Separator \<notin> set (c # takeWhile (\<lambda>x. x \<noteq> Separator) cs)"
        using that by (auto dest: set_takeWhileD)
      from Clean_inv_element [OF inv this] show ?thesis
        by (intro rec) (simp_all add: length_dropWhile_le)
    qed
    define single where
      "single \<longleftrightarrow> c = dot \<and> (case cs of [] \<Rightarrow> True | d # _ \<Rightarrow> d = Separator)"
    define double where
      "double \<longleftrightarrow> c = dot \<and>
              (case cs of
                 [] \<Rightarrow> False
               | d # ds \<Rightarrow> d = dot \<and> (case ds of [] \<Rightarrow> True | e # _ \<Rightarrow> e = Separator))"
    note eqn = Clean_loop.simps(2) [of rooted c cs out dotdot, folded single_def double_def]
    consider (sep) "c = Separator" | (single) "c \<noteq> Separator" single
      | (double) "c \<noteq> Separator" "\<not> single" double
      | (element) "c \<noteq> Separator" "\<not> single" "\<not> double"
      by blast
    then show ?thesis
    proof cases
      case sep
      then show ?thesis unfolding Cons eqn using f1 by simp
    next
      case single
      then show ?thesis unfolding Cons eqn using f1 by simp
    next
      case double
      then show ?thesis
        unfolding Cons eqn using f2 f3 f4
        by (cases "dotdot < length out"; cases rooted) (simp_all add: Let_def)
    next
      case element
      then show ?thesis unfolding Cons eqn using f5 by (simp add: Let_def)
    qed
  qed
qed

lemma Clean_not_doubled: "\<not> doubled (Clean path)"
proof (cases path)
  case Nil
  then show ?thesis by (simp add: Clean_def doubled_def)
next
  case (Cons c cs)
  have dot: "\<not> doubled [dot]" by (simp add: doubled_def)
  show ?thesis
  proof (cases "c = Separator")
    case True
    have "Clean_inv True [Separator] 1" by (simp add: Clean_inv_def doubled_def)
    from Clean_loop_inv [OF this, of cs] have "\<not> doubled (Clean_loop True cs [Separator] 1)"
      by (auto simp: Clean_inv_def)
    with True dot show ?thesis by (simp add: Cons Clean_def Let_def)
  next
    case False
    have "Clean_inv False [] 0" by (simp add: Clean_inv_def doubled_def)
    from Clean_loop_inv [OF this, of "c # cs"] have "\<not> doubled (Clean_loop False (c # cs) [] 0)"
      by (auto simp: Clean_inv_def)
    with False dot show ?thesis by (simp add: Cons Clean_def Let_def)
  qed
qed

lemma Join_not_doubled: "\<not> doubled (Join elem)"
  by (induction elem) (simp_all add: Clean_not_doubled, simp add: doubled_def)

subsection \<open>\<open>Clean\<close> is the lexical cleaning of the elements\<close>

lemma strings_Join_snoc:
  "strings_Join (es @ [e]) sep = (if es = [] then e else strings_Join es sep @ sep @ e)"
  by (induction es sep rule: strings_Join.induct) auto

lemma strings_Join_empty:
  "\<forall>e \<in> set es. e \<noteq> [] \<Longrightarrow> strings_Join es sep = [] \<longleftrightarrow> es = []"
  by (induction es sep rule: strings_Join.induct) auto

lemma buffer_snoc:
  "buffer rooted (es @ [e]) =
     (if es = [] then buffer rooted [] @ e else buffer rooted es @ Separator # e)"
  by (simp add: buffer_def strings_Join_snoc)

lemma buffer_length_empty:
  assumes "\<forall>e \<in> set kept. e \<noteq> []"
  shows "length (buffer rooted kept) = (if rooted then 1 else 0) \<longleftrightarrow> kept = []"
  using strings_Join_empty [OF assms, of "[Separator]"] by (auto simp: buffer_def)

lemma buffer_length_mono: "length (buffer rooted xs) \<le> length (buffer rooted (xs @ ys))"
proof (induction ys rule: rev_induct)
  case Nil
  show ?case by simp
next
  case (snoc y ys)
  have "length (buffer rooted (xs @ ys)) \<le> length (buffer rooted ((xs @ ys) @ [y]))"
    unfolding buffer_snoc [of rooted "xs @ ys" y] by (simp add: buffer_def)
  with snoc show ?case by simp
qed

lemma backtrack_separator:
  "Separator \<notin> set x \<Longrightarrow> dotdot \<le> length p \<Longrightarrow> n \<le> length x \<Longrightarrow>
     backtrack (p @ Separator # x) dotdot (length p + n) = length p"
proof (induction n)
  case 0
  show ?case by (cases "length p") (simp_all add: nth_append)
next
  case (Suc n)
  from Suc.prems have "x ! n \<in> set x" by simp
  with Suc.prems have "x ! n \<noteq> Separator" by metis
  with Suc show ?case by (simp add: nth_append)
qed

lemma backtrack_start:
  "Separator \<notin> set x \<Longrightarrow> n < length x \<Longrightarrow>
     backtrack (p @ x) (length p) (length p + n) = length p"
proof (induction n)
  case 0
  show ?case by (cases "length p") simp_all
next
  case (Suc n)
  from Suc.prems have "x ! Suc n \<in> set x" by simp
  with Suc.prems have "x ! Suc n \<noteq> Separator" by metis
  with Suc show ?case by (simp add: nth_append)
qed

lemma segments_unfold:
  "segments cs =
     takeWhile (\<lambda>x. x \<noteq> Separator) cs #
       (case dropWhile (\<lambda>x. x \<noteq> Separator) cs of [] \<Rightarrow> [] | _ # rest \<Rightarrow> segments rest)"
  by (induction cs) auto

lemma elements_separator: "elements (Separator # cs) = elements cs"
  by (simp add: elements_def)

lemma elements_end: "elements [] = []"
  by (simp add: elements_def)

lemma elements_element:
  assumes "c \<noteq> Separator"
  shows "elements (c # cs) =
     (c # takeWhile (\<lambda>x. x \<noteq> Separator) cs) # elements (dropWhile (\<lambda>x. x \<noteq> Separator) cs)"
proof -
  have u: "segments (c # cs) =
      (c # takeWhile (\<lambda>x. x \<noteq> Separator) cs) #
        (case dropWhile (\<lambda>x. x \<noteq> Separator) cs of [] \<Rightarrow> [] | _ # rest \<Rightarrow> segments rest)"
    using segments_unfold [of "c # cs"] assms by simp
  show ?thesis
  proof (cases "dropWhile (\<lambda>x. x \<noteq> Separator) cs")
    case Nil
    show ?thesis unfolding elements_def u Nil by simp
  next
    case (Cons s rest)
    then have "s = Separator"
      using hd_dropWhile [of "\<lambda>x. x \<noteq> Separator" cs] by auto
    then show ?thesis unfolding elements_def u Cons by simp
  qed
qed

lemma buffer_backtrack:
  assumes x: "x \<noteq> []" "Separator \<notin> set x"
    and d: "dotdot \<le> length (buffer rooted kept)" "kept = [] \<longrightarrow> dotdot = length (buffer rooted [])"
  shows "dotdot < length (buffer rooted (kept @ [x])) \<and>
     take (backtrack (buffer rooted (kept @ [x])) dotdot (length (buffer rooted (kept @ [x])) - 1))
       (buffer rooted (kept @ [x])) = buffer rooted kept"
proof (cases "kept = []")
  case True
  define p where "p = buffer rooted []"
  have out: "buffer rooted (kept @ [x]) = p @ x"
    using True buffer_snoc [of rooted "[]" x] by (simp add: p_def)
  have dd: "dotdot = length p" using d(2) True by (simp add: p_def)
  have "length x - 1 < length x" using x(1) by (cases x) simp_all
  from backtrack_start [OF x(2) this, of p] x(1)
  have "backtrack (p @ x) (length p) (length (p @ x) - 1) = length p"
    by (cases x) simp_all
  with x(1) show ?thesis
    unfolding out dd using True by (simp add: p_def)
next
  case False
  define p where "p = buffer rooted kept"
  have out: "buffer rooted (kept @ [x]) = p @ Separator # x"
    using False by (simp add: buffer_snoc p_def)
  from backtrack_separator [OF x(2), of dotdot p "length x"] d(1)
  have "backtrack (p @ Separator # x) dotdot (length (p @ Separator # x) - 1) = length p"
    by (simp add: p_def)
  with d(1) show ?thesis
    unfolding out by (simp add: p_def)
qed

lemma Clean_loop_lexical:
  assumes "\<forall>e \<in> set rest. e \<noteq> [] \<and> Separator \<notin> set e \<and> e \<noteq> [dot, dot]"
    and "rooted \<longrightarrow> n = 0"
  shows "Clean_loop rooted path (buffer rooted (replicate n [dot, dot] @ rest))
           (length (buffer rooted (replicate n [dot, dot]))) =
         buffer rooted (lexical rooted (replicate n [dot, dot] @ rest) (elements path))"
  using assms
proof (induction path arbitrary: n rest rule: length_induct)
  case (1 path)
  note ok = "1.prems"(1) and root = "1.prems"(2)
  define kept where "kept = replicate n [dot, dot] @ rest"
  define out where "out = buffer rooted kept"
  define dotdot where "dotdot = length (buffer rooted (replicate n [dot, dot]))"
  have ds: "dot \<noteq> Separator" by (simp add: dot_def Separator_def)
  have ne: "\<forall>e \<in> set kept. e \<noteq> []" using ok by (auto simp: kept_def)
  show ?case
    unfolding kept_def [symmetric] out_def [symmetric] dotdot_def [symmetric]
  proof (cases path)
    case Nil
    show "Clean_loop rooted path out dotdot = buffer rooted (lexical rooted kept (elements path))"
      by (simp add: Nil elements_end out_def)
  next
    case (Cons c cs)
    have rec: "Clean_loop rooted p (buffer rooted (replicate n' [dot, dot] @ rest'))
           (length (buffer rooted (replicate n' [dot, dot]))) =
         buffer rooted (lexical rooted (replicate n' [dot, dot] @ rest') (elements p))"
      if "length p \<le> length cs"
        "\<forall>e \<in> set rest'. e \<noteq> [] \<and> Separator \<notin> set e \<and> e \<noteq> [dot, dot]" "rooted \<longrightarrow> n' = 0"
      for p n' rest'
      using "1.IH" that Cons by simp
    have same: "Clean_loop rooted p out dotdot = buffer rooted (lexical rooted kept (elements p))"
      if "length p \<le> length cs" for p
      using rec [OF that ok root] by (simp add: out_def dotdot_def kept_def)
    define single where
      "single \<longleftrightarrow> c = dot \<and> (case cs of [] \<Rightarrow> True | d # _ \<Rightarrow> d = Separator)"
    define double where
      "double \<longleftrightarrow> c = dot \<and>
              (case cs of
                 [] \<Rightarrow> False
               | d # ds \<Rightarrow> d = dot \<and> (case ds of [] \<Rightarrow> True | e # _ \<Rightarrow> e = Separator))"
    note eqn = Clean_loop.simps(2) [of rooted c cs out dotdot, folded single_def double_def]
    define el where "el = c # takeWhile (\<lambda>x. x \<noteq> Separator) cs"
    have el_single: "el = [dot] \<longleftrightarrow> single"
      by (cases cs) (auto simp: el_def single_def)
    have el_double: "el = [dot, dot] \<longleftrightarrow> double"
    proof (cases cs)
      case Nil
      then show ?thesis by (simp add: el_def double_def)
    next
      case (Cons d ds)
      then show ?thesis using ds by (cases ds) (auto simp: el_def double_def)
    qed
    have elems: "elements (c # cs) = el # elements (dropWhile (\<lambda>x. x \<noteq> Separator) cs)"
      if "c \<noteq> Separator"
      unfolding el_def using that by (rule elements_element)
    consider (sep) "c = Separator" | (single) "c \<noteq> Separator" single
      | (double) "c \<noteq> Separator" "\<not> single" double
      | (element) "c \<noteq> Separator" "\<not> single" "\<not> double"
      by blast
    then show "Clean_loop rooted path out dotdot =
        buffer rooted (lexical rooted kept (elements path))"
    proof cases
      case sep
      then show ?thesis
        unfolding Cons eqn using same [of cs] by (simp add: elements_separator)
    next
      case single
      then have el: "el = [dot]" using el_single by simp
      from single(2) have "dropWhile (\<lambda>x. x \<noteq> Separator) cs = cs"
        by (cases cs) (simp_all add: single_def)
      with elems [OF single(1)] el have "elements (c # cs) = [dot] # elements cs" by simp
      with single show ?thesis
        unfolding Cons eqn using same [of cs] by simp
    next
      case double
      then have el: "el = [dot, dot]" using el_double by simp
      from double(3) obtain ds where cs: "cs = dot # ds"
        and ds: "ds = [] \<or> hd ds = Separator"
        by (cases cs; cases "tl cs") (auto simp: double_def)
      from ds have "dropWhile (\<lambda>x. x \<noteq> Separator) ds = ds" by (cases ds) auto
      then have "dropWhile (\<lambda>x. x \<noteq> Separator) cs = ds"
        using \<open>dot \<noteq> Separator\<close> by (simp add: cs)
      with elems [OF double(1)] el have es: "elements (c # cs) = [dot, dot] # elements ds"
        by simp
      have tl: "tl cs = ds" "length ds \<le> length cs" by (simp_all add: cs)
      show ?thesis
      proof (cases rest rule: rev_cases)
        case Nil
        then have kept: "kept = replicate n [dot, dot]" by (simp add: kept_def)
        have len: "\<not> dotdot < length out" by (simp add: out_def dotdot_def kept)
        have last: "\<not> (kept \<noteq> [] \<and> last kept \<noteq> [dot, dot])" by (cases n) (simp_all add: kept)
        show ?thesis
        proof (cases rooted)
          case True
          with double len last show ?thesis
            unfolding Cons eqn es using same [of ds] tl by auto
        next
          case False
          have grow: "(if length out > 0 then out @ [Separator] else out) @ [dot, dot] =
              buffer rooted (replicate (Suc n) [dot, dot] @ [])"
          proof -
            have a: "length out > 0 \<longleftrightarrow> kept \<noteq> []"
              using buffer_length_empty [OF ne, of rooted] False by (simp add: out_def)
            have b: "replicate (Suc n) [dot, dot] @ [] = kept @ [[dot, dot]]"
              by (simp add: kept replicate_append_same)
            have c: "buffer rooted [] = []"
              using False by (simp add: buffer_def)
            show ?thesis
              unfolding b buffer_snoc using a c by (simp add: out_def)
          qed
          have "Clean_loop rooted ds (buffer rooted (replicate (Suc n) [dot, dot] @ []))
                 (length (buffer rooted (replicate (Suc n) [dot, dot]))) =
               buffer rooted (lexical rooted (replicate (Suc n) [dot, dot] @ []) (elements ds))"
            by (rule rec) (simp_all add: tl False)
          moreover have "kept @ [[dot, dot]] = replicate (Suc n) [dot, dot]"
            by (simp add: kept replicate_append_same)
          ultimately show ?thesis
            unfolding Cons eqn es using double len last False grow tl
            by (auto simp: Let_def)
        qed
      next
        case (snoc rest' x)
        define kept' where "kept' = replicate n [dot, dot] @ rest'"
        have kept: "kept = kept' @ [x]" by (simp add: kept_def kept'_def snoc)
        have x: "x \<noteq> []" "Separator \<notin> set x" "x \<noteq> [dot, dot]" using ok snoc by auto
        have ok': "\<forall>e \<in> set rest'. e \<noteq> [] \<and> Separator \<notin> set e \<and> e \<noteq> [dot, dot]"
          using ok snoc by simp
        have d1: "dotdot \<le> length (buffer rooted kept')"
          unfolding dotdot_def kept'_def by (rule buffer_length_mono)
        have d2: "kept' = [] \<longrightarrow> dotdot = length (buffer rooted [])"
          by (simp add: kept'_def dotdot_def)
        from buffer_backtrack [OF x(1,2) d1 d2]
        have bt: "dotdot < length out"
          "take (backtrack out dotdot (length out - 1)) out = buffer rooted kept'"
          by (simp_all add: out_def kept)
        have last: "kept \<noteq> [] \<and> last kept \<noteq> [dot, dot]" "butlast kept = kept'"
          using x(3) by (simp_all add: kept)
        have "Clean_loop rooted ds (buffer rooted kept') dotdot =
            buffer rooted (lexical rooted kept' (elements ds))"
          unfolding kept'_def dotdot_def by (rule rec) (simp_all add: tl ok' root)
        with double bt last tl show ?thesis
          unfolding Cons eqn es by simp
      qed
    next
      case element
      have el: "el \<noteq> [dot]" "el \<noteq> [dot, dot]" "el \<noteq> []" "Separator \<notin> set el"
        using element el_single el_double by (auto simp: el_def dest: set_takeWhileD)
      have grow: "(if rooted \<and> length out \<noteq> 1 \<or> \<not> rooted \<and> length out \<noteq> 0
                   then out @ [Separator] else out) @ el = buffer rooted (kept @ [el])"
      proof -
        have a: "(rooted \<and> length out \<noteq> 1 \<or> \<not> rooted \<and> length out \<noteq> 0) \<longleftrightarrow> kept \<noteq> []"
          using buffer_length_empty [OF ne, of rooted] by (cases rooted) (simp_all add: out_def)
        have c: "kept = [] \<Longrightarrow> out = buffer rooted []"
          by (simp add: out_def)
        show ?thesis
          unfolding buffer_snoc a using c by (simp add: out_def)
      qed
      have "Clean_loop rooted (dropWhile (\<lambda>x. x \<noteq> Separator) cs)
              (buffer rooted (replicate n [dot, dot] @ (rest @ [el])))
              (length (buffer rooted (replicate n [dot, dot]))) =
            buffer rooted (lexical rooted (replicate n [dot, dot] @ (rest @ [el]))
              (elements (dropWhile (\<lambda>x. x \<noteq> Separator) cs)))"
        by (rule rec) (use ok el root in \<open>simp_all add: length_dropWhile_le\<close>)
      then have "Clean_loop rooted (dropWhile (\<lambda>x. x \<noteq> Separator) cs)
              (buffer rooted (kept @ [el])) dotdot =
            buffer rooted (lexical rooted (kept @ [el])
              (elements (dropWhile (\<lambda>x. x \<noteq> Separator) cs)))"
        by (simp add: kept_def dotdot_def)
      moreover have "Clean_loop rooted (c # cs) out dotdot =
          Clean_loop rooted (dropWhile (\<lambda>x. x \<noteq> Separator) cs)
            ((if rooted \<and> length out \<noteq> 1 \<or> \<not> rooted \<and> length out \<noteq> 0
              then out @ [Separator] else out) @ el) dotdot"
        using element by (simp only: eqn Let_def el_def if_False)
      moreover have "lexical rooted kept (el # elements (dropWhile (\<lambda>x. x \<noteq> Separator) cs)) =
          lexical rooted (kept @ [el]) (elements (dropWhile (\<lambda>x. x \<noteq> Separator) cs))"
        using el(1,2) by simp
      ultimately show ?thesis
        unfolding Cons elems [OF element(1)] grow by simp
    qed
  qed
qed

lemma lexical_subset: "set (lexical rooted kept es) \<subseteq> set kept \<union> set es"
proof (induction es arbitrary: kept)
  case Nil
  show ?case by simp
next
  case (Cons e es)
  have "set (butlast kept) \<subseteq> set kept" by (auto dest: in_set_butlastD)
  with Cons [of kept] Cons [of "butlast kept"] Cons [of "kept @ [e]"] show ?case
    by (auto split: if_splits)
qed

lemma Clean_lexical: "Clean path = lexical_clean path"
proof (cases path)
  case Nil
  then show ?thesis
    by (simp add: Clean_def lexical_clean_def render_def elements_end)
next
  case (Cons c cs)
  show ?thesis
  proof (cases "c = Separator")
    case True
    have "Clean_loop True cs (buffer True (replicate 0 [dot, dot] @ []))
           (length (buffer True (replicate 0 [dot, dot]))) =
         buffer True (lexical True (replicate 0 [dot, dot] @ []) (elements cs))"
      by (rule Clean_loop_lexical) simp_all
    then have "Clean_loop True cs [Separator] 1 = buffer True (lexical True [] (elements cs))"
      by (simp add: buffer_def)
    moreover have "buffer True kept \<noteq> []" for kept by (simp add: buffer_def)
    ultimately show ?thesis
      using True by (simp add: Cons Clean_def lexical_clean_def render_def elements_separator)
  next
    case False
    define kept where "kept = lexical False [] (elements path)"
    have "Clean_loop False path (buffer False (replicate 0 [dot, dot] @ []))
           (length (buffer False (replicate 0 [dot, dot]))) =
         buffer False (lexical False (replicate 0 [dot, dot] @ []) (elements path))"
      by (rule Clean_loop_lexical) simp_all
    then have loop: "Clean_loop False path [] 0 = buffer False kept"
      by (simp add: buffer_def kept_def)
    have "set kept \<subseteq> set (elements path)"
      using lexical_subset [of False "[]" "elements path"] by (simp add: kept_def)
    then have "\<forall>e \<in> set kept. e \<noteq> []" by (auto simp: elements_def)
    from buffer_length_empty [OF this, of False]
    have "length (buffer False kept) = 0 \<longleftrightarrow> kept = []" by simp
    moreover have "Clean path =
        (if length (Clean_loop False path [] 0) = 0 then [dot] else Clean_loop False path [] 0)"
      using False by (simp add: Clean_def Cons Let_def)
    moreover have "lexical_clean path = (if kept = [] then [dot] else buffer False kept)"
      using False by (simp add: lexical_clean_def render_def Cons kept_def)
    ultimately show ?thesis
      using loop by simp
  qed
qed

lemma Join_lexical: "Join [root, suffix] = lexical_join root suffix"
  by (simp add: lexical_join_def Clean_lexical)

subsection \<open>The claim\<close>

text \<open>
  Claim C7, as amended. For every source root and suffix: a suffix that begins with a
  separator loses exactly that one separator before the join, any other suffix is joined
  as it is; the join is \<^verbatim>\<open>filepath.Join\<close>, which is the lexical join of the elements: root
  and suffix are put together, empty elements and \<^verbatim>\<open>.\<close> elements are dropped, and every
  \<^verbatim>\<open>..\<close> element is resolved against the element before it, also against an element of
  the root, so that the result can lie outside the root. The joined path holds no
  doubled separator. And \<open>runS5cmd\<close> creates the output file and then runs one command,
  the configured binary, whose last three arguments are \<^verbatim>\<open>cp\<close>, this path and the
  destination; when the output file cannot be created it runs nothing. The claim's "no
  traversal resolution" fails: the join resolves \<^verbatim>\<open>..\<close> elements.
\<close>

theorem srcPath_strip_join_and_run:
  "(\<forall>rest. pathSuffix = Separator # rest \<longrightarrow>
      srcPath folderPrefix pathSuffix = Join [folderPrefix, rest] \<and>
      srcPath folderPrefix pathSuffix = lexical_join folderPrefix rest) \<and>
   ((\<forall>rest. pathSuffix \<noteq> Separator # rest) \<longrightarrow>
      srcPath folderPrefix pathSuffix = Join [folderPrefix, pathSuffix] \<and>
      srcPath folderPrefix pathSuffix = lexical_join folderPrefix pathSuffix) \<and>
   (\<nexists>ps ss. srcPath folderPrefix pathSuffix = ps @ [Separator, Separator] @ ss) \<and>
   (\<exists>cmd leading.
      Path cmd = s5cmdBinary \<and>
      Args cmd = leading @ [''cp'', srcPath folderPrefix pathSuffix, s3BucketPath] \<and>
      runS5cmd sys folderPrefix awsEndpointURL s3BucketPath awsCredsFile awsProfile
          jsonOutputFile pathSuffix s5cmdBinary envCreds w =
        (if fst (Create sys jsonOutputFile w)
         then (if fst (Run sys cmd jsonOutputFile (snd (Create sys jsonOutputFile w)))
               then None else Some ErrExit,
               snd (Run sys cmd jsonOutputFile (snd (Create sys jsonOutputFile w))))
         else (Some ErrCreatingOutputFile, snd (Create sys jsonOutputFile w))))"
proof (intro conjI allI impI)
  fix rest
  assume "pathSuffix = Separator # rest"
  then show "srcPath folderPrefix pathSuffix = Join [folderPrefix, rest]"
    by (simp add: srcPath_def Separator_def)
  then show "srcPath folderPrefix pathSuffix = lexical_join folderPrefix rest"
    by (simp only: Join_lexical)
next
  assume "\<forall>rest. pathSuffix \<noteq> Separator # rest"
  then have "pathSuffix = [] \<or> pathSuffix ! 0 \<noteq> CHR ''/''"
    by (cases pathSuffix) (auto simp: Separator_def)
  then show "srcPath folderPrefix pathSuffix = Join [folderPrefix, pathSuffix]"
    by (auto simp: srcPath_def)
  then show "srcPath folderPrefix pathSuffix = lexical_join folderPrefix pathSuffix"
    by (simp only: Join_lexical)
next
  have "\<not> doubled (srcPath folderPrefix pathSuffix)"
    unfolding srcPath_def Let_def by (rule Join_not_doubled)
  then show "\<nexists>ps ss. srcPath folderPrefix pathSuffix = ps @ [Separator, Separator] @ ss"
    using doubled_iff [of "srcPath folderPrefix pathSuffix"] by blast
next
  define cmd where
    "cmd = s5cmd_Cmd sys folderPrefix awsEndpointURL s3BucketPath awsCredsFile awsProfile
             pathSuffix s5cmdBinary envCreds w"
  have p: "Path cmd = s5cmdBinary"
    by (simp add: cmd_def s5cmd_Cmd_def Let_def)
  have "\<exists>leading. Args cmd = leading @ [''cp'', srcPath folderPrefix pathSuffix, s3BucketPath]"
    unfolding cmd_def
    by (cases envCreds; cases "awsEndpointURL = []") (simp_all add: s5cmd_Cmd_def Let_def)
  then obtain leading where
    a: "Args cmd = leading @ [''cp'', srcPath folderPrefix pathSuffix, s3BucketPath]" ..
  have r: "runS5cmd sys folderPrefix awsEndpointURL s3BucketPath awsCredsFile awsProfile
          jsonOutputFile pathSuffix s5cmdBinary envCreds w =
        (if fst (Create sys jsonOutputFile w)
         then (if fst (Run sys cmd jsonOutputFile (snd (Create sys jsonOutputFile w)))
               then None else Some ErrExit,
               snd (Run sys cmd jsonOutputFile (snd (Create sys jsonOutputFile w))))
         else (Some ErrCreatingOutputFile, snd (Create sys jsonOutputFile w)))"
    by (simp add: runS5cmd_def cmd_def Let_def split_beta)
  from p a r show "\<exists>cmd leading.
      Path cmd = s5cmdBinary \<and>
      Args cmd = leading @ [''cp'', srcPath folderPrefix pathSuffix, s3BucketPath] \<and>
      runS5cmd sys folderPrefix awsEndpointURL s3BucketPath awsCredsFile awsProfile
          jsonOutputFile pathSuffix s5cmdBinary envCreds w =
        (if fst (Create sys jsonOutputFile w)
         then (if fst (Run sys cmd jsonOutputFile (snd (Create sys jsonOutputFile w)))
               then None else Some ErrExit,
               snd (Run sys cmd jsonOutputFile (snd (Create sys jsonOutputFile w))))
         else (Some ErrCreatingOutputFile, snd (Create sys jsonOutputFile w)))"
    by blast
qed

text \<open>
  The theorem at the default configuration: the suffix \<^verbatim>\<open>/**/**/*.gz\<close> under the root
  \<^verbatim>\<open>/tmp/\<close> gives \<^verbatim>\<open>/tmp/**/**/*.gz\<close>, and a suffix without a leading separator is joined
  as it is.
\<close>

theorem srcPath_strip_join_and_run_witness:
  "''/**/**/*.gz'' = Separator # ''**/**/*.gz'' \<and>
   srcPath ''/tmp/'' ''/**/**/*.gz'' = Join [''/tmp/'', ''**/**/*.gz''] \<and>
   srcPath ''/tmp/'' ''/**/**/*.gz'' = lexical_join ''/tmp/'' ''**/**/*.gz'' \<and>
   lexical_join ''/tmp/'' ''**/**/*.gz'' = ''/tmp/**/**/*.gz'' \<and>
   (\<forall>rest. ''**/*.gz'' \<noteq> Separator # rest) \<and>
   srcPath ''/tmp/'' ''**/*.gz'' = Join [''/tmp/'', ''**/*.gz''] \<and>
   srcPath ''/tmp/'' ''**/*.gz'' = lexical_join ''/tmp/'' ''**/*.gz'' \<and>
   lexical_join ''/tmp/'' ''**/*.gz'' = ''/tmp/**/*.gz''"
proof -
  have s: "''/**/**/*.gz'' = Separator # ''**/**/*.gz''"
    by (simp add: Separator_def)
  have n: "\<forall>rest. ''**/*.gz'' \<noteq> Separator # rest"
    by (simp add: Separator_def)
  have j: "lexical_join ''/tmp/'' ''**/**/*.gz'' = ''/tmp/**/**/*.gz''"
    "lexical_join ''/tmp/'' ''**/*.gz'' = ''/tmp/**/*.gz''"
    by code_simp+
  have a: "srcPath ''/tmp/'' ''/**/**/*.gz'' = Join [''/tmp/'', ''**/**/*.gz''] \<and>
      srcPath ''/tmp/'' ''/**/**/*.gz'' = lexical_join ''/tmp/'' ''**/**/*.gz''"
    by (rule srcPath_strip_join_and_run
        [of "''/**/**/*.gz''" "''/tmp/''", THEN conjunct1, THEN spec, THEN mp, OF s])
  have b: "srcPath ''/tmp/'' ''**/*.gz'' = Join [''/tmp/'', ''**/*.gz''] \<and>
      srcPath ''/tmp/'' ''**/*.gz'' = lexical_join ''/tmp/'' ''**/*.gz''"
    by (rule srcPath_strip_join_and_run
        [of "''**/*.gz''" "''/tmp/''", THEN conjunct2, THEN conjunct1, THEN mp, OF n])
  show ?thesis
    by (rule conjI [OF s conjI [OF conjunct1 [OF a] conjI [OF conjunct2 [OF a]
        conjI [OF j(1) conjI [OF n conjI [OF conjunct1 [OF b] conjI [OF conjunct2 [OF b]
        j(2)]]]]]]])
qed

text \<open>
  The claim as stated fails: under the root \<^verbatim>\<open>/tmp/\<close> the suffix \<^verbatim>\<open>../etc/*.gz\<close> is not
  handed on as \<^verbatim>\<open>/tmp/../etc/*.gz\<close>; its \<^verbatim>\<open>..\<close> element is resolved against the root's
  element, and the command line names \<^verbatim>\<open>/etc/*.gz\<close>, a path outside the root.
\<close>

theorem traversal_resolved_counterexample:
  "srcPath ''/tmp/'' ''../etc/*.gz'' = ''/etc/*.gz'' \<and>
   srcPath ''/tmp/'' ''../etc/*.gz'' \<noteq> ''/tmp/../etc/*.gz'' \<and>
   Args (s5cmd_Cmd (sample_os tool_copies) ''/tmp/'' [] ''s3://b/'' ''/etc/aws/credentials''
           ''default'' ''../etc/*.gz'' ''s5cmd'' False (sample_tree [])) =
     [''--json'', ''--log'', ''info'', ''--credentials-file'', ''/etc/aws/credentials'',
      ''--profile'', ''default'', ''cp'', ''/etc/*.gz'', ''s3://b/'']"
  by code_simp

section \<open>Claim C8: accumulation does not depend on the merge order\<close>

lemma accumulate_assoc: "accumulate (accumulate a b) c = accumulate a (accumulate b c)"
  by (simp add: accumulate_def add.assoc)

lemma foldl_accumulate:
  "FilesTransferred (foldl accumulate z xs) = FilesTransferred z + sum_list (map FilesTransferred xs) \<and>
   FilesDeleted (foldl accumulate z xs) = FilesDeleted z + sum_list (map FilesDeleted xs) \<and>
   TotalBytes (foldl accumulate z xs) = TotalBytes z + sum_list (map TotalBytes xs) \<and>
   FilesFailed (foldl accumulate z xs) = FilesFailed z @ concat (map FilesFailed xs)"
  by (induction xs arbitrary: z) (simp_all add: accumulate_def add.assoc)

lemma sum_list_reordered:
  fixes f :: "'a \<Rightarrow> go_int"
  assumes "mset xs = mset ys"
  shows "sum_list (map f xs) = sum_list (map f ys)"
proof -
  have "sum_list (map f xs) = sum_mset (image_mset f (mset xs))"
    by (metis mset_map sum_mset_sum_list)
  also have "\<dots> = sum_mset (image_mset f (mset ys))" by (simp add: assms)
  also have "\<dots> = sum_list (map f ys)"
    by (metis mset_map sum_mset_sum_list)
  finally show ?thesis .
qed

lemma mset_concat_map:
  "mset (concat (map f xs)) = sum_mset (image_mset (\<lambda>x. mset (f x)) (mset xs))"
  by (induction xs) simp_all

text \<open>
  Claim C8. The fold of lines 221 to 224 is associative, and folding a list of summaries
  into the zero accumulator gives the same totals for every order of the list: the same
  \<open>FilesTransferred\<close>, \<open>FilesDeleted\<close> and \<open>TotalBytes\<close> (sums in 64-bit arithmetic), the
  same number of failed deletions and the same failed paths with the same multiplicities.
  Only the order in which the failed paths are listed follows the merge order.
\<close>

theorem accumulate_order_independent:
  "accumulate (accumulate a b) c = accumulate a (accumulate b c) \<and>
   (mset xs = mset ys \<longrightarrow>
      FilesTransferred (foldl accumulate Summary_zero xs) =
        FilesTransferred (foldl accumulate Summary_zero ys) \<and>
      FilesDeleted (foldl accumulate Summary_zero xs) =
        FilesDeleted (foldl accumulate Summary_zero ys) \<and>
      TotalBytes (foldl accumulate Summary_zero xs) =
        TotalBytes (foldl accumulate Summary_zero ys) \<and>
      len (FilesFailed (foldl accumulate Summary_zero xs)) =
        len (FilesFailed (foldl accumulate Summary_zero ys)) \<and>
      mset (FilesFailed (foldl accumulate Summary_zero xs)) =
        mset (FilesFailed (foldl accumulate Summary_zero ys)))"
proof (intro conjI impI)
  assume p: "mset xs = mset ys"
  show "FilesTransferred (foldl accumulate Summary_zero xs) =
        FilesTransferred (foldl accumulate Summary_zero ys)"
    by (simp add: foldl_accumulate sum_list_reordered [OF p])
  show "FilesDeleted (foldl accumulate Summary_zero xs) =
        FilesDeleted (foldl accumulate Summary_zero ys)"
    by (simp add: foldl_accumulate sum_list_reordered [OF p])
  show "TotalBytes (foldl accumulate Summary_zero xs) =
        TotalBytes (foldl accumulate Summary_zero ys)"
    by (simp add: foldl_accumulate sum_list_reordered [OF p])
  show m: "mset (FilesFailed (foldl accumulate Summary_zero xs)) =
        mset (FilesFailed (foldl accumulate Summary_zero ys))"
    by (simp add: foldl_accumulate mset_concat_map p)
  show "len (FilesFailed (foldl accumulate Summary_zero xs)) =
        len (FilesFailed (foldl accumulate Summary_zero ys))"
    using m unfolding len_def by (metis size_mset)
qed (rule accumulate_assoc)

text \<open>
  The theorem at three summaries \<open>A\<close>, \<open>B\<close>, \<open>C\<close> folded in the orders \<open>A B C\<close> and
  \<open>C A B\<close>: the totals are 6 files transferred, 4 deleted, 600 bytes and 2 failed
  deletions in both.
\<close>

theorem accumulate_order_independent_witness:
  "mset [\<lparr>FilesTransferred = 1, FilesDeleted = 1, TotalBytes = 100, FilesFailed = []\<rparr>,
         \<lparr>FilesTransferred = 2, FilesDeleted = 1, TotalBytes = 200, FilesFailed = [''/tmp/b.gz'']\<rparr>,
         \<lparr>FilesTransferred = 3, FilesDeleted = 2, TotalBytes = 300, FilesFailed = [''/tmp/c.gz'']\<rparr>] =
   mset [\<lparr>FilesTransferred = 3, FilesDeleted = 2, TotalBytes = 300, FilesFailed = [''/tmp/c.gz'']\<rparr>,
         \<lparr>FilesTransferred = 1, FilesDeleted = 1, TotalBytes = 100, FilesFailed = []\<rparr>,
         \<lparr>FilesTransferred = 2, FilesDeleted = 1, TotalBytes = 200, FilesFailed = [''/tmp/b.gz'']\<rparr>] \<and>
   FilesTransferred (foldl accumulate Summary_zero
        [\<lparr>FilesTransferred = 1, FilesDeleted = 1, TotalBytes = 100, FilesFailed = []\<rparr>,
         \<lparr>FilesTransferred = 2, FilesDeleted = 1, TotalBytes = 200, FilesFailed = [''/tmp/b.gz'']\<rparr>,
         \<lparr>FilesTransferred = 3, FilesDeleted = 2, TotalBytes = 300, FilesFailed = [''/tmp/c.gz'']\<rparr>]) =
   FilesTransferred (foldl accumulate Summary_zero
        [\<lparr>FilesTransferred = 3, FilesDeleted = 2, TotalBytes = 300, FilesFailed = [''/tmp/c.gz'']\<rparr>,
         \<lparr>FilesTransferred = 1, FilesDeleted = 1, TotalBytes = 100, FilesFailed = []\<rparr>,
         \<lparr>FilesTransferred = 2, FilesDeleted = 1, TotalBytes = 200, FilesFailed = [''/tmp/b.gz'']\<rparr>]) \<and>
   foldl accumulate Summary_zero
        [\<lparr>FilesTransferred = 1, FilesDeleted = 1, TotalBytes = 100, FilesFailed = []\<rparr>,
         \<lparr>FilesTransferred = 2, FilesDeleted = 1, TotalBytes = 200, FilesFailed = [''/tmp/b.gz'']\<rparr>,
         \<lparr>FilesTransferred = 3, FilesDeleted = 2, TotalBytes = 300, FilesFailed = [''/tmp/c.gz'']\<rparr>] =
     \<lparr>FilesTransferred = 6, FilesDeleted = 4, TotalBytes = 600,
        FilesFailed = [''/tmp/b.gz'', ''/tmp/c.gz'']\<rparr> \<and>
   foldl accumulate Summary_zero
        [\<lparr>FilesTransferred = 3, FilesDeleted = 2, TotalBytes = 300, FilesFailed = [''/tmp/c.gz'']\<rparr>,
         \<lparr>FilesTransferred = 1, FilesDeleted = 1, TotalBytes = 100, FilesFailed = []\<rparr>,
         \<lparr>FilesTransferred = 2, FilesDeleted = 1, TotalBytes = 200, FilesFailed = [''/tmp/b.gz'']\<rparr>] =
     \<lparr>FilesTransferred = 6, FilesDeleted = 4, TotalBytes = 600,
        FilesFailed = [''/tmp/c.gz'', ''/tmp/b.gz'']\<rparr>"
proof -
  let ?A = "\<lparr>FilesTransferred = 1, FilesDeleted = 1, TotalBytes = 100, FilesFailed = []\<rparr>"
  let ?B = "\<lparr>FilesTransferred = 2, FilesDeleted = 1, TotalBytes = 200,
              FilesFailed = [''/tmp/b.gz'']\<rparr>"
  let ?C = "\<lparr>FilesTransferred = 3, FilesDeleted = 2, TotalBytes = 300,
              FilesFailed = [''/tmp/c.gz'']\<rparr>"
  have p: "mset [?A, ?B, ?C] = mset [?C, ?A, ?B]"
    by (simp add: add_mset_commute)
  have e1: "foldl accumulate Summary_zero [?A, ?B, ?C] =
      \<lparr>FilesTransferred = 6, FilesDeleted = 4, TotalBytes = 600,
         FilesFailed = [''/tmp/b.gz'', ''/tmp/c.gz'']\<rparr>"
    by code_simp
  have e2: "foldl accumulate Summary_zero [?C, ?A, ?B] =
      \<lparr>FilesTransferred = 6, FilesDeleted = 4, TotalBytes = 600,
         FilesFailed = [''/tmp/c.gz'', ''/tmp/b.gz'']\<rparr>"
    by code_simp
  have t: "FilesTransferred (foldl accumulate Summary_zero [?A, ?B, ?C]) =
      FilesTransferred (foldl accumulate Summary_zero [?C, ?A, ?B])"
    by (rule accumulate_order_independent
        [of Summary_zero Summary_zero Summary_zero "[?A, ?B, ?C]" "[?C, ?A, ?B]",
          THEN conjunct2, THEN mp, OF p, THEN conjunct1])
  show ?thesis
    by (rule conjI [OF p conjI [OF t conjI [OF e1 e2]]])
qed

section \<open>Claim C9: every other failed invocation is a hard failure\<close>

text \<open>
  Claim C9. Let a job id be generated and let \<open>runS5cmd\<close> return an error \<open>e\<close>. If the
  output file does not exist, or is empty, or its content does not decode into the error
  envelope, then \<open>processFiles\<close> returns the all-zero summary together with the error that
  wraps \<open>e\<close>, and so never the empty-match outcome.
\<close>

theorem other_failure_is_hard:
  assumes "NewRandom sys w = (Some jobID, w0)"
    and "runS5cmd sys folderPrefix awsEndpointURL s3BucketPath awsCredsFile awsProfile
           (jobID @ ''.json'') pathSuffix s5cmdBinary envCreds w0 = (Some e, w1)"
    and "Open sys (jobID @ ''.json'') w1 = NotExist \<or>
         (\<exists>ending. Open sys (jobID @ ''.json'') w1 = Opened [] ending) \<or>
         (\<exists>data ending. Open sys (jobID @ ''.json'') w1 = Opened data ending \<and>
            Unmarshal_s5Error sys data = None)"
  shows "fst (processFiles sys folderPrefix awsEndpointURL s3BucketPath awsCredsFile awsProfile
           pathSuffix s5cmdBinary envCreds w) = (Summary_zero, Some (ErrRunningS5cmd jobID e))"
  using assms
  by (auto simp: processFiles_def checkForNoMatchError_def split: io_end.splits)

text \<open>
  The theorem at the sample system whose tool exits with a failure after writing a line
  that is not JSON.
\<close>

theorem other_failure_is_hard_witness:
  "NewRandom (sample_os tool_crash) (sample_tree []) = (Some ''job'', sample_tree []) \<and>
   fst (runS5cmd (sample_os tool_crash) ''/tmp/'' [] ''s3://b/'' ''creds'' ''default''
          (''job'' @ ''.json'') ''/**/**/*.gz'' ''s5cmd'' False (sample_tree [])) = Some ErrExit \<and>
   Open (sample_os tool_crash) (''job'' @ ''.json'')
     (snd (runS5cmd (sample_os tool_crash) ''/tmp/'' [] ''s3://b/'' ''creds'' ''default''
          (''job'' @ ''.json'') ''/**/**/*.gz'' ''s5cmd'' False (sample_tree []))) =
     Opened (''ERROR: access denied'' @ [newline]) EOF \<and>
   Unmarshal_s5Error (sample_os tool_crash) (''ERROR: access denied'' @ [newline]) = None \<and>
   fst (processFiles (sample_os tool_crash) ''/tmp/'' [] ''s3://b/'' ''creds'' ''default''
          ''/**/**/*.gz'' ''s5cmd'' False (sample_tree [])) =
     (Summary_zero, Some (ErrRunningS5cmd ''job'' ErrExit))"
proof -
  have h1: "NewRandom (sample_os tool_crash) (sample_tree []) = (Some ''job'', sample_tree [])"
    by (simp add: sample_os_def tree_os_def)
  have f: "fst (runS5cmd (sample_os tool_crash) ''/tmp/'' [] ''s3://b/'' ''creds''
          ''default'' (''job'' @ ''.json'') ''/**/**/*.gz'' ''s5cmd'' False (sample_tree [])) =
        Some ErrExit"
    by code_simp
  then have h2: "runS5cmd (sample_os tool_crash) ''/tmp/'' [] ''s3://b/'' ''creds''
          ''default'' (''job'' @ ''.json'') ''/**/**/*.gz'' ''s5cmd'' False (sample_tree []) =
        (Some ErrExit,
         snd (runS5cmd (sample_os tool_crash) ''/tmp/'' [] ''s3://b/'' ''creds''
          ''default'' (''job'' @ ''.json'') ''/**/**/*.gz'' ''s5cmd'' False (sample_tree [])))"
    by (simp add: prod_eq_iff)
  have o: "Open (sample_os tool_crash) (''job'' @ ''.json'')
     (snd (runS5cmd (sample_os tool_crash) ''/tmp/'' [] ''s3://b/'' ''creds'' ''default''
          (''job'' @ ''.json'') ''/**/**/*.gz'' ''s5cmd'' False (sample_tree []))) =
     Opened (''ERROR: access denied'' @ [newline]) EOF"
    by code_simp
  have u: "Unmarshal_s5Error (sample_os tool_crash) (''ERROR: access denied'' @ [newline]) = None"
    by code_simp
  from o u have h3: "Open (sample_os tool_crash) (''job'' @ ''.json'')
       (snd (runS5cmd (sample_os tool_crash) ''/tmp/'' [] ''s3://b/'' ''creds'' ''default''
          (''job'' @ ''.json'') ''/**/**/*.gz'' ''s5cmd'' False (sample_tree []))) = NotExist \<or>
     (\<exists>ending. Open (sample_os tool_crash) (''job'' @ ''.json'')
       (snd (runS5cmd (sample_os tool_crash) ''/tmp/'' [] ''s3://b/'' ''creds'' ''default''
          (''job'' @ ''.json'') ''/**/**/*.gz'' ''s5cmd'' False (sample_tree []))) =
        Opened [] ending) \<or>
     (\<exists>data ending. Open (sample_os tool_crash) (''job'' @ ''.json'')
       (snd (runS5cmd (sample_os tool_crash) ''/tmp/'' [] ''s3://b/'' ''creds'' ''default''
          (''job'' @ ''.json'') ''/**/**/*.gz'' ''s5cmd'' False (sample_tree []))) =
        Opened data ending \<and> Unmarshal_s5Error (sample_os tool_crash) data = None)"
    by blast
  from other_failure_is_hard [OF h1 h2 h3] h1 f o u show ?thesis
    by blast
qed

section \<open>Claim C10: the unterminated last line\<close>

lemma ReadBytes_append:
  "ReadBytes delim s = Some (line, rest) \<Longrightarrow> ReadBytes delim (s @ t) = Some (line, rest @ t)"
  by (induction s arbitrary: line rest) (auto split: if_splits option.splits)

lemma ReadBytes_None_iff: "ReadBytes delim s = None \<longleftrightarrow> delim \<notin> set s"
  by (induction s) (auto split: option.splits)

lemma complete_lines_fragment:
  "newline \<notin> set fragment \<Longrightarrow> complete_lines (body @ fragment) = complete_lines body"
proof (induction body rule: complete_lines.induct)
  case (1 unread)
  show ?case
  proof (cases "ReadBytes newline unread")
    case None
    then have "newline \<notin> set (unread @ fragment)"
      using 1(2) by (simp add: ReadBytes_None_iff)
    then have "ReadBytes newline (unread @ fragment) = None"
      by (simp add: ReadBytes_None_iff)
    with None show ?thesis
      by (simp add: complete_lines.simps [of unread] complete_lines.simps [of "unread @ fragment"])
  next
    case (Some a)
    obtain line rest where a: "a = (line, rest)" by (cases a)
    from Some a have rb: "ReadBytes newline unread = Some (line, rest)" by simp
    from "1.IH" [OF rb refl "1.prems"] rb ReadBytes_append [OF rb, of fragment]
    show ?thesis
      by (simp add: complete_lines.simps [of unread] complete_lines.simps [of "unread @ fragment"])
  qed
qed

text \<open>
  Claim C10. Let the output file open and read to end-of-file, and let its content end in
  a fragment without any newline. Then \<open>parseAndCleanup\<close> returns exactly what the
  parsing loop returns on the bytes before the fragment: the same summary in every field,
  no error, and the same world, so no file named in the fragment is removed. This holds
  for every decoder, also one that accepts the fragment as a successful copy record. If
  the whole content is such a fragment, the result is the zero summary and the world
  untouched.
\<close>

theorem unterminated_fragment_dropped:
  assumes "Open sys jsonOutputFile w = Opened (body @ fragment) EOF"
    and "newline \<notin> set fragment"
  shows "parseAndCleanup sys folderPrefix jsonOutputFile w =
           parse_loop sys EOF body (Summary_zero, w) \<and>
         (body = [] \<longrightarrow>
            parseAndCleanup sys folderPrefix jsonOutputFile w = ((Summary_zero, None), w))"
proof
  have lines: "complete_lines (body @ fragment) = complete_lines body"
    by (rule complete_lines_fragment [OF assms(2)])
  then have "records sys (body @ fragment) = records sys body"
    by (simp add: records_def)
  with assms(1) show first: "parseAndCleanup sys folderPrefix jsonOutputFile w =
      parse_loop sys EOF body (Summary_zero, w)"
    by (simp add: parseAndCleanup_def parse_loop_fold)
  show "body = [] \<longrightarrow>
      parseAndCleanup sys folderPrefix jsonOutputFile w = ((Summary_zero, None), w)"
    unfolding first by (simp add: parse_loop.simps [of sys EOF "[]"])
qed

text \<open>
  The theorem at an output file that holds the first sample record without its newline:
  the decoder accepts the fragment as a successful copy of \<^verbatim>\<open>/tmp/a.gz\<close>, which exists
  and is removable, yet the summary stays zero and the file stays; with the newline the
  same record is counted and the file removed.
\<close>

theorem unterminated_fragment_dropped_witness:
  "Open (sample_os tool_copies) ''job.json'' (sample_tree doc_a) = Opened ([] @ doc_a) EOF \<and>
   newline \<notin> set doc_a \<and>
   Unmarshal_JobResult (sample_os tool_copies) doc_a = Some rec_a \<and>
   parseAndCleanup (sample_os tool_copies) ''/tmp/'' ''job.json'' (sample_tree doc_a) =
     ((Summary_zero, None), sample_tree doc_a) \<and>
   contents (sample_tree doc_a) ''/tmp/a.gz'' = Some ''aaaa'' \<and>
   ''/tmp/a.gz'' \<notin> undeletable (sample_tree doc_a) \<and>
   fst (parseAndCleanup (sample_os tool_copies) ''/tmp/'' ''job.json''
          (sample_tree (doc_a @ [newline]))) =
     (\<lparr>FilesTransferred = 1, FilesDeleted = 1, TotalBytes = 1024, FilesFailed = []\<rparr>, None) \<and>
   contents (snd (parseAndCleanup (sample_os tool_copies) ''/tmp/'' ''job.json''
          (sample_tree (doc_a @ [newline])))) ''/tmp/a.gz'' = None"
proof -
  have o: "Open (sample_os tool_copies) ''job.json'' (sample_tree doc_a) = Opened ([] @ doc_a) EOF"
    by code_simp
  have n: "newline \<notin> set doc_a"
    by code_simp
  have u: "Unmarshal_JobResult (sample_os tool_copies) doc_a = Some rec_a"
    by code_simp
  have r: "parseAndCleanup (sample_os tool_copies) ''/tmp/'' ''job.json'' (sample_tree doc_a) =
     ((Summary_zero, None), sample_tree doc_a)"
    by (rule unterminated_fragment_dropped [OF o n, THEN conjunct2, THEN mp, OF refl])
  have c: "contents (sample_tree doc_a) ''/tmp/a.gz'' = Some ''aaaa''"
    "''/tmp/a.gz'' \<notin> undeletable (sample_tree doc_a)"
    by (simp_all add: sample_tree_def)
  have t: "fst (parseAndCleanup (sample_os tool_copies) ''/tmp/'' ''job.json''
          (sample_tree (doc_a @ [newline]))) =
     (\<lparr>FilesTransferred = 1, FilesDeleted = 1, TotalBytes = 1024, FilesFailed = []\<rparr>, None)"
    "contents (snd (parseAndCleanup (sample_os tool_copies) ''/tmp/'' ''job.json''
          (sample_tree (doc_a @ [newline])))) ''/tmp/a.gz'' = None"
    by code_simp+
  show ?thesis
    by (rule conjI [OF o conjI [OF n conjI [OF u conjI [OF r conjI [OF c(1)
          conjI [OF c(2) conjI [OF t(1) t(2)]]]]]]])
qed

end
